theory Spec2Isabelle
  imports Main "HOL-Library.AList"
begin

section \<open>Resource accounting of the compute-node agent\<close>

text \<open>
  A shallow embedding of \<^verbatim>\<open>src/ai/backend/agent/resources.py\<close>: the bit-mask decoder,
  the ordering of discovered compute plugins, the mount value type and the resource
  record with its line-oriented text form.

  Python's \<^verbatim>\<open>str\<close> is modelled by \<^typ>\<open>string\<close>; a \<^typ>\<open>char\<close> stands for a code point
  below 256, and the case conversions are those of ASCII.  Python's unbounded \<^verbatim>\<open>int\<close> is
  \<^typ>\<open>int\<close>.  A \<^verbatim>\<open>dict\<close> is an association list in insertion order.  An exception is a
  value of the type \<open>error\<close>, returned on the left of a sum.
\<close>

subsection \<open>bitmask2set\<close>

text \<open>
  \<^verbatim>\<open>
  def bitmask2set(mask: int) -> FrozenSet[int]:
      bpos = 0
      bset = []
      while mask > 0:
          if (mask & 1) == 1:
              bset.append(bpos)
          mask = (mask >> 1)
          bpos += 1
      return frozenset(bset)
  \<close>
  The loop is the recursive function \<open>bitmask2set_loop\<close> on the three variables; it ends
  because a positive mask shrinks when it is shifted right.
\<close>

function bitmask2set_loop :: "int \<Rightarrow> int \<Rightarrow> int list \<Rightarrow> int list" where
  "bitmask2set_loop msk bpos bset =
     (if msk > 0
      then bitmask2set_loop (drop_bit 1 msk) (bpos + 1)
             (if and msk 1 = 1 then bset @ [bpos] else bset)
      else bset)"
  by pat_completeness auto
termination
  by (relation "measure (\<lambda>(msk, bpos, bset). nat msk)") (auto simp: drop_bit_eq_div)

declare bitmask2set_loop.simps [simp del]

definition bitmask2set :: "int \<Rightarrow> int set" where
  "bitmask2set msk = set (bitmask2set_loop msk 0 [])"

subsection \<open>ComputePluginContext.discover\_plugins\<close>

text \<open>
  \<^verbatim>\<open>
  scanned_plugins = [*super().discover_plugins(plugin_group, blocklist)]

  def accel_lt_intrinsic(item):
      # push back "intrinsic" plugins (if exists)
      if item[0] in ('cpu', 'mem'):
          return 0
      return -1

  scanned_plugins.sort(key=accel_lt_intrinsic)
  yield from scanned_plugins
  \<close>
  The scan of the base class is the argument \<open>scanned_plugins\<close>.  Python's \<^verbatim>\<open>list.sort\<close>
  is stable, and so is \<^const>\<open>sort_key\<close>, so both give the one stable arrangement by key.
\<close>

definition accel_lt_intrinsic :: "string \<times> 'p \<Rightarrow> int" where
  "accel_lt_intrinsic item = (if fst item \<in> {''cpu'', ''mem''} then 0 else - 1)"

definition discover_plugins :: "(string \<times> 'p) list \<Rightarrow> (string \<times> 'p) list" where
  "discover_plugins scanned_plugins = sort_key accel_lt_intrinsic scanned_plugins"

definition intrinsic :: "string \<times> 'p \<Rightarrow> bool" where
  "intrinsic item = (fst item = ''cpu'' \<or> fst item = ''mem'')"

subsection \<open>Python's string methods\<close>

text \<open>
  The methods of \<^verbatim>\<open>str\<close> the source calls, each with a separator of one character.
  \<open>str_split sep s\<close> is \<^verbatim>\<open>s.split(sep)\<close>: it never returns the empty list, and an empty
  string gives one empty field.
\<close>

fun str_split :: "char \<Rightarrow> string \<Rightarrow> string list" where
  "str_split sep [] = [[]]"
| "str_split sep (c # cs) =
     (if c = sep then [] # str_split sep cs
      else (case str_split sep cs of w # ws \<Rightarrow> (c # w) # ws | [] \<Rightarrow> [[c]]))"

text \<open>
  \<open>str_partition sep s\<close> is the first and the last component of \<^verbatim>\<open>s.partition(sep)\<close>:
  the text before the first separator and the text after it (empty when there is none).
  For a string that holds the separator these are also the two fields of
  \<^verbatim>\<open>s.split(sep, maxsplit=1)\<close>.
\<close>

definition str_partition :: "char \<Rightarrow> string \<Rightarrow> string \<times> string" where
  "str_partition sep s = (takeWhile (\<lambda>c. c \<noteq> sep) s, drop 1 (dropWhile (\<lambda>c. c \<noteq> sep) s))"

text \<open>The code points below 256 for which \<^verbatim>\<open>str.isspace\<close> holds; \<^verbatim>\<open>str.strip\<close> removes them
  at both ends.\<close>

definition isspace :: "char \<Rightarrow> bool" where
  "isspace c = ((of_char c :: nat) \<in> {9, 10, 11, 12, 13, 28, 29, 30, 31, 32, 133, 160})"

definition str_strip :: "string \<Rightarrow> string" where
  "str_strip s = rev (dropWhile isspace (rev (dropWhile isspace s)))"

fun str_join :: "string \<Rightarrow> string list \<Rightarrow> string" where
  "str_join sep [] = []"
| "str_join sep [x] = x"
| "str_join sep (x # y # ys) = x @ sep @ str_join sep (y # ys)"

definition str_startswith :: "string \<Rightarrow> string \<Rightarrow> bool" where
  "str_startswith s p = (take (length p) s = p)"

definition str_endswith :: "string \<Rightarrow> string \<Rightarrow> bool" where
  "str_endswith s p = (length p \<le> length s \<and> drop (length s - length p) s = p)"

text \<open>
  Case conversion, on the code points below 256, which are the characters of a \<open>string\<close>.
  There \<^verbatim>\<open>str.isupper\<close> holds of \<open>A\<close> to \<open>Z\<close> and of the letters from U+00C0 to U+00DE
  (but not of the multiplication sign U+00D7), and \<^verbatim>\<open>str.lower\<close> moves each of them up by
  32 and leaves every other character as it is.
\<close>

definition isupper :: "char \<Rightarrow> bool" where
  "isupper c =
     ((65 \<le> (of_char c :: nat) \<and> (of_char c :: nat) \<le> 90)
      \<or> (192 \<le> (of_char c :: nat) \<and> (of_char c :: nat) \<le> 214)
      \<or> (216 \<le> (of_char c :: nat) \<and> (of_char c :: nat) \<le> 222))"

definition char_lower :: "char \<Rightarrow> char" where
  "char_lower c = (if isupper c then char_of ((of_char c :: nat) + 32) else c)"

definition str_lower :: "string \<Rightarrow> string" where
  "str_lower s = map char_lower s"

text \<open>
  \<^verbatim>\<open>str.upper\<close> moves \<open>a\<close> to \<open>z\<close> and the letters from U+00E0 to U+00FE (but not the
  division sign U+00F7) down by 32, and turns the sharp s U+00DF into the two letters
  \<open>SS\<close>, so the result of a character is a string.  For the micro sign U+00B5 and for
  U+00FF it gives U+039C and U+0178, which are not characters of a \<open>string\<close>: the model
  keeps the two characters as they are, and the properties that depend on the upper case
  of a string are stated for strings without them (\<open>upper_known\<close>, or ASCII strings).
\<close>

definition char_upper :: "char \<Rightarrow> string" where
  "char_upper c =
     (let n = (of_char c :: nat) in
      if (97 \<le> n \<and> n \<le> 122) \<or> (224 \<le> n \<and> n \<le> 246) \<or> (248 \<le> n \<and> n \<le> 254)
      then [char_of (n - 32)]
      else if n = 223 then ''SS'' else [c])"

definition str_upper :: "string \<Rightarrow> string" where
  "str_upper s = concat (map char_upper s)"

definition upper_known :: "string \<Rightarrow> bool" where
  "upper_known s = (CHR 0xB5 \<notin> set s \<and> CHR 0xFF \<notin> set s)"

text \<open>A \<^verbatim>\<open>dict\<close> keeps its keys in insertion order: \<^verbatim>\<open>d[k] = v\<close> replaces the value of a
  key that is there, in its place, and appends a new key.\<close>

definition dict_set :: "('k \<times> 'v) list \<Rightarrow> 'k \<Rightarrow> 'v \<Rightarrow> ('k \<times> 'v) list" where
  "dict_set d k v = AList.update k v d"

subsection \<open>Exceptions\<close>

text \<open>The exception classes that reach the caller: \<^verbatim>\<open>KeyError\<close> with its argument,
  \<^verbatim>\<open>ValueError\<close>, and the errors of the \<^verbatim>\<open>decimal\<close> and \<^verbatim>\<open>json\<close> modules.\<close>

datatype error = KeyError string | ValueError | InvalidOperation | JSONDecodeError

subsection \<open>Paths\<close>

text \<open>
  \<^verbatim>\<open>pathlib.Path\<close> on a POSIX host.  A path is kept in the normal form pathlib gives it:
  its root (empty, one slash, or two slashes: exactly two leading slashes are kept) and
  its components, with empty components and single dots dropped.  Two paths are equal
  when root and components are, which is pathlib's equality.  \<open>parts\<close> holds the components
  after the root, so for a relative path it is Python's \<^verbatim>\<open>parts\<close>.
\<close>

datatype path = Path (root: string) (parts: "string list")

definition Path_of_str :: "string \<Rightarrow> path" where
  "Path_of_str s =
     Path (if take 2 s = ''//'' \<and> take 3 s \<noteq> ''///'' then ''//''
           else if take 1 s = ''/'' then ''/'' else [])
          (filter (\<lambda>p. p \<noteq> [] \<and> p \<noteq> ''.'') (str_split CHR ''/'' s))"

definition is_absolute :: "path \<Rightarrow> bool" where
  "is_absolute p = (root p \<noteq> [])"

definition path_str :: "path \<Rightarrow> string" where
  "path_str p =
     (if root p = [] \<and> parts p = [] then ''.'' else root p @ str_join ''/'' (parts p))"

subsection \<open>Mount\<close>

text \<open>
  Modelled from the spec: the enumerations \<^verbatim>\<open>MountTypes\<close> and \<^verbatim>\<open>MountPermission\<close> of
  \<^verbatim>\<open>ai.backend.common.types\<close> are not among the sources.  The spec gives the type as
  BIND or VOLUME and the permission as READ\_ONLY or READ\_WRITE, written \<open>ro\<close> and \<open>rw\<close>
  in the string form.
\<close>

datatype MountTypes = BIND | VOLUME

datatype MountPermission = READ_ONLY | READ_WRITE

fun permission_value :: "MountPermission \<Rightarrow> string" where
  "permission_value READ_ONLY = ''ro''"
| "permission_value READ_WRITE = ''rw''"

definition MountPermission_of_value :: "string \<Rightarrow> error + MountPermission" where
  "MountPermission_of_value v =
     (if v = ''ro'' then Inr READ_ONLY else if v = ''rw'' then Inr READ_WRITE
      else Inl ValueError)"

text \<open>
  The field \<^verbatim>\<open>source\<close> is declared \<^verbatim>\<open>Optional[Path]\<close>, and \<^verbatim>\<open>from_str\<close> stores a
  \<^verbatim>\<open>str\<close> in it for a volume; a path and a string are never equal in Python, so the
  three kinds of value are kept apart.
\<close>

datatype mount_source = Source_None | Source_Path path | Source_str string

record Mount =
  type :: MountTypes
  source :: mount_source
  target :: path
  permission :: MountPermission
  opts :: "(string \<times> string) list option"

text \<open>\<^verbatim>\<open>f'{self.source}:{self.target}:{self.permission.value}'\<close>\<close>

fun source_str :: "mount_source \<Rightarrow> string" where
  "source_str Source_None = ''None''"
| "source_str (Source_Path p) = path_str p"
| "source_str (Source_str s) = s"

definition Mount_str :: "Mount \<Rightarrow> string" where
  "Mount_str m = source_str (source m) @ '':'' @ path_str (target m) @ '':''
                 @ permission_value (permission m)"

text \<open>
  \<^verbatim>\<open>
  def from_str(cls, s):
      source, target, perm = s.split(':')
      source = Path(source)
      type = MountTypes.BIND
      if not source.is_absolute():
          if len(source.parts) == 1:
              source = str(source)
              type = MountTypes.VOLUME
          else:
              raise ValueError('Mount source must be an absolute path '
                               'if it is not a volume name.', source)
      target = Path(target)
      if not target.is_absolute():
          raise ValueError('Mount target must be an absolute path.', target)
      perm = MountPermission(perm)
      return cls(type, source, target, perm, None)
  \<close>
  Unpacking a list that does not have three elements raises \<^verbatim>\<open>ValueError\<close>, and so does
  the enumeration on a value it does not have.
\<close>

definition Mount_from_str :: "string \<Rightarrow> error + Mount" where
  "Mount_from_str s =
     (case str_split CHR '':'' s of
        [source_field, target_field, perm_field] \<Rightarrow>
          (let src = Path_of_str source_field in
           if \<not> is_absolute src \<and> length (parts src) \<noteq> 1 then Inl ValueError
           else
             (let tgt = Path_of_str target_field in
              if \<not> is_absolute tgt then Inl ValueError
              else
                (case MountPermission_of_value perm_field of
                   Inl e \<Rightarrow> Inl e
                 | Inr perm \<Rightarrow>
                     Inr \<lparr>type = (if is_absolute src then BIND else VOLUME),
                          source = (if is_absolute src then Source_Path src
                                    else Source_str (path_str src)),
                          target = tgt, permission = perm, opts = None\<rparr>)))
      | _ \<Rightarrow> Inl ValueError)"

subsection \<open>What the record's text form calls outside this file\<close>

text \<open>
  \<^verbatim>\<open>write_to_string\<close> and \<^verbatim>\<open>read_from_string\<close> call the \<^verbatim>\<open>decimal\<close> and \<^verbatim>\<open>json\<close>
  modules and the classes \<^verbatim>\<open>BinarySize\<close> and \<^verbatim>\<open>ResourceSlot\<close> of
  \<^verbatim>\<open>ai.backend.common.types\<close>, none of them among the sources.  They are parameters of
  the model, one field each, over a type \<open>'d\<close> of \<^verbatim>\<open>Decimal\<close> values:
  \<^item> \<open>Decimal_of_str\<close> is \<^verbatim>\<open>Decimal(raw_alloc)\<close> on a string, which may raise;
  \<^item> \<open>Decimal_of_BinarySize\<close> is \<^verbatim>\<open>Decimal(n)\<close> on a size in bytes;
  \<^item> \<open>Decimal_str\<close> is \<^verbatim>\<open>f'{alloc}'\<close>;
  \<^item> \<open>BinarySize_of_Decimal\<close> is \<^verbatim>\<open>BinarySize(alloc)\<close>, a size in bytes;
  \<^item> \<open>BinarySize_format c n\<close> is \<^verbatim>\<open>f'{BinarySize(n):c}'\<close> for the format letter \<open>c\<close>;
  \<^item> \<open>BinarySize_from_str\<close> and \<open>BinarySize_finite_from_str\<close> parse a size, and may raise;
  \<^item> \<open>json_dumps\<close> is \<^verbatim>\<open>json.dumps\<close> on a mapping from strings to strings;
  \<^item> \<open>ResourceSlot_of_json\<close> is \<^verbatim>\<open>ResourceSlot(json.loads(s))\<close>, which may raise.
\<close>

record 'd library =
  Decimal_of_str :: "string \<Rightarrow> error + 'd"
  Decimal_of_BinarySize :: "int \<Rightarrow> 'd"
  Decimal_str :: "'d \<Rightarrow> string"
  BinarySize_of_Decimal :: "'d \<Rightarrow> int"
  BinarySize_format :: "char \<Rightarrow> int \<Rightarrow> string"
  BinarySize_from_str :: "string \<Rightarrow> error + int"
  BinarySize_finite_from_str :: "string \<Rightarrow> error + int"
  json_dumps :: "(string \<times> string) list \<Rightarrow> string"
  ResourceSlot_of_json :: "string \<Rightarrow> error + (string \<times> string) list"

text \<open>
  The registry \<^verbatim>\<open>known_slot_types\<close> is a module-level mapping from slot names to slot
  types; here it is an argument, a map to the type's string value.
  \<open>slot_type known_slot_types slot_name\<close> is \<^verbatim>\<open>known_slot_types.get(slot_name, 'count')\<close>.
\<close>

definition slot_type :: "(string \<rightharpoonup> string) \<Rightarrow> string \<Rightarrow> string" where
  "slot_type known_slot_types slot_name =
     (case known_slot_types slot_name of None \<Rightarrow> ''count'' | Some t \<Rightarrow> t)"

subsection \<open>KernelResourceSpec\<close>

text \<open>
  The fields in the order of the class.  \<open>allocations\<close> maps a device name to a mapping
  from slot names to a mapping from device ids to amounts; a device id is a string, as
  \<^verbatim>\<open>read_from_string\<close> makes it.
\<close>

record 'd KernelResourceSpec =
  container_id :: string
  slots :: "(string \<times> string) list"
  allocations :: "(string \<times> (string \<times> (string \<times> 'd) list) list) list"
  scratch_disk_size :: int
  mounts :: "Mount list"

subsubsection \<open>write\_to\_string\<close>

text \<open>
  \<^verbatim>\<open>
  for dev_id, alloc in per_device_alloc.items():
      if known_slot_types.get(slot_name, 'count') == 'bytes':
          pieces.append(f'{dev_id}:{BinarySize(alloc):s}')
      else:
          pieces.append(f'{dev_id}:{alloc}')
  \<close>
\<close>

definition write_piece ::
  "'d library \<Rightarrow> (string \<rightharpoonup> string) \<Rightarrow> string \<Rightarrow> string \<times> 'd \<Rightarrow> string" where
  "write_piece lib known_slot_types slot_name item =
     (if slot_type known_slot_types slot_name = ''bytes''
      then fst item @ '':'' @ BinarySize_format lib CHR ''s'' (BinarySize_of_Decimal lib (snd item))
      else fst item @ '':'' @ Decimal_str lib (snd item))"

text \<open>
  \<^verbatim>\<open>
  for slot_name, per_device_alloc in slots.items():
      if not (slot_name.startswith(f'{device_name}.') or slot_name == device_name):
          raise ValueError(f'device_name ({device_name}) must be a prefix of '
                           f'slot_name ({slot_name})')
      pieces = []
      ...
      alloc_str = ','.join(pieces)
      resource_str += f'{slot_name.upper()}_SHARES={alloc_str}\n'
  \<close>
\<close>

fun write_slots ::
  "'d library \<Rightarrow> (string \<rightharpoonup> string) \<Rightarrow> string \<Rightarrow> (string \<times> (string \<times> 'd) list) list
     \<Rightarrow> string \<Rightarrow> error + string" where
  "write_slots lib known_slot_types device_name [] resource_str = Inr resource_str"
| "write_slots lib known_slot_types device_name ((slot_name, per_device_alloc) # rest)
       resource_str =
     (if \<not> (str_startswith slot_name (device_name @ ''.'') \<or> slot_name = device_name)
      then Inl ValueError
      else
        (let pieces = map (write_piece lib known_slot_types slot_name) per_device_alloc;
             alloc_str = str_join '','' pieces
         in write_slots lib known_slot_types device_name rest
              (resource_str @ str_upper slot_name @ ''_SHARES='' @ alloc_str @ [CHR 0x0A])))"

text \<open>\<^verbatim>\<open>for device_name, slots in self.allocations.items(): ...\<close>\<close>

fun write_allocations ::
  "'d library \<Rightarrow> (string \<rightharpoonup> string) \<Rightarrow> (string \<times> (string \<times> (string \<times> 'd) list) list) list
     \<Rightarrow> string \<Rightarrow> error + string" where
  "write_allocations lib known_slot_types [] resource_str = Inr resource_str"
| "write_allocations lib known_slot_types ((device_name, slots_of_device) # rest) resource_str =
     (case write_slots lib known_slot_types device_name slots_of_device resource_str of
        Inl e \<Rightarrow> Inl e
      | Inr resource_str' \<Rightarrow> write_allocations lib known_slot_types rest resource_str')"

text \<open>
  \<^verbatim>\<open>
  mounts_str = ','.join(map(str, self.mounts))
  slots_str = json.dumps({k: str(v) for k, v in self.slots.items()})
  resource_str = f'CID={self.container_id}\n'
  resource_str += f'SCRATCH_SIZE={BinarySize(self.scratch_disk_size):m}\n'
  resource_str += f'MOUNTS={mounts_str}\n'
  resource_str += f'SLOTS={slots_str}\n'
  \<close>
  The values of \<open>slots\<close> are strings, on which \<^verbatim>\<open>str\<close> is the identity.
\<close>

definition write_header :: "'d library \<Rightarrow> 'd KernelResourceSpec \<Rightarrow> string" where
  "write_header lib r =
     ''CID='' @ container_id r @ [CHR 0x0A]
     @ ''SCRATCH_SIZE='' @ BinarySize_format lib CHR ''m'' (scratch_disk_size r) @ [CHR 0x0A]
     @ ''MOUNTS='' @ str_join '','' (map Mount_str (mounts r)) @ [CHR 0x0A]
     @ ''SLOTS='' @ json_dumps lib (slots r) @ [CHR 0x0A]"

definition write_to_string ::
  "'d library \<Rightarrow> (string \<rightharpoonup> string) \<Rightarrow> 'd KernelResourceSpec \<Rightarrow> error + string" where
  "write_to_string lib known_slot_types r =
     write_allocations lib known_slot_types (allocations r) (write_header lib r)"

subsubsection \<open>read\_from\_string\<close>

text \<open>
  \<^verbatim>\<open>
  kvpairs = {}
  for line in text.split('\n'):
      if '=' not in line:
          continue
      key, val = line.strip().split('=', maxsplit=1)
      kvpairs[key] = val
  \<close>
  A line that holds \<open>=\<close> still holds it after \<^verbatim>\<open>strip\<close>, so the split gives two fields.
\<close>

fun read_lines :: "string list \<Rightarrow> (string \<times> string) list \<Rightarrow> (string \<times> string) list" where
  "read_lines [] kvpairs = kvpairs"
| "read_lines (line # rest) kvpairs =
     (if CHR ''='' \<notin> set line then read_lines rest kvpairs
      else (let (key, val) = str_partition CHR ''='' (str_strip line)
            in read_lines rest (dict_set kvpairs key val)))"

definition read_kvpairs :: "string \<Rightarrow> (string \<times> string) list" where
  "read_kvpairs text = read_lines (str_split CHR 0x0A text) []"

text \<open>
  \<^verbatim>\<open>
  for entry in val.split(','):
      raw_dev_id, _, raw_alloc = entry.partition(':')
      if not raw_dev_id or not raw_alloc:
          continue
      dev_id = DeviceId(raw_dev_id)
      try:
          if known_slot_types.get(slot_name, 'count') == 'bytes':
              alloc = Decimal(BinarySize.from_str(raw_alloc))
          else:
              alloc = Decimal(raw_alloc)
      except KeyError as e:
          log.warning('A previously launched container has '
                      'unknown slot type: {}. Ignoring it.', e.args[0])
          continue
      per_device_alloc[dev_id] = alloc
  \<close>
  The function carries the mapping built so far and the arguments of the warnings
  logged so far.  Only a \<^verbatim>\<open>KeyError\<close> is caught; any other exception leaves the parse.
\<close>

definition read_alloc ::
  "'d library \<Rightarrow> (string \<rightharpoonup> string) \<Rightarrow> string \<Rightarrow> string \<Rightarrow> error + 'd" where
  "read_alloc lib known_slot_types slot_name raw_alloc =
     (if slot_type known_slot_types slot_name = ''bytes''
      then (case BinarySize_from_str lib raw_alloc of
              Inl e \<Rightarrow> Inl e
            | Inr n \<Rightarrow> Inr (Decimal_of_BinarySize lib n))
      else Decimal_of_str lib raw_alloc)"

fun read_entries ::
  "'d library \<Rightarrow> (string \<rightharpoonup> string) \<Rightarrow> string \<Rightarrow> string list
     \<Rightarrow> (string \<times> 'd) list \<times> string list \<Rightarrow> error + (string \<times> 'd) list \<times> string list" where
  "read_entries lib known_slot_types slot_name [] (per_device_alloc, warnings) =
     Inr (per_device_alloc, warnings)"
| "read_entries lib known_slot_types slot_name (entry # rest) (per_device_alloc, warnings) =
     (let (raw_dev_id, raw_alloc) = str_partition CHR '':'' entry in
      if raw_dev_id = [] \<or> raw_alloc = []
      then read_entries lib known_slot_types slot_name rest (per_device_alloc, warnings)
      else
        (case read_alloc lib known_slot_types slot_name raw_alloc of
           Inl e \<Rightarrow>
             (case e of
                KeyError a \<Rightarrow>
                  read_entries lib known_slot_types slot_name rest
                    (per_device_alloc, warnings @ [a])
              | _ \<Rightarrow> Inl e)
         | Inr alloc \<Rightarrow>
             read_entries lib known_slot_types slot_name rest
               (dict_set per_device_alloc raw_dev_id alloc, warnings)))"

text \<open>
  \<^verbatim>\<open>allocations[device_name][slot_name] = per_device_alloc\<close> on the
  \<^verbatim>\<open>defaultdict(lambda: defaultdict(Decimal))\<close>: a device name that is not there yet is
  appended with an empty inner mapping before the slot is stored in it.
\<close>

definition allocations_set ::
  "(string \<times> (string \<times> 'v) list) list \<Rightarrow> string \<Rightarrow> string \<Rightarrow> 'v
     \<Rightarrow> (string \<times> (string \<times> 'v) list) list" where
  "allocations_set allocs device_name slot_name v =
     dict_set allocs device_name
       (dict_set (case map_of allocs device_name of None \<Rightarrow> [] | Some inner \<Rightarrow> inner)
          slot_name v)"

text \<open>
  \<^verbatim>\<open>
  for key, val in kvpairs.items():
      if key.endswith('_SHARES'):
          slot_name = SlotName(key[:-7].lower())
          device_name = DeviceName(slot_name.split('.')[0])
          per_device_alloc: MutableMapping[DeviceId, Decimal] = {}
          for entry in val.split(','):
              ...
          allocations[device_name][slot_name] = per_device_alloc
  \<close>
\<close>

fun read_allocations ::
  "'d library \<Rightarrow> (string \<rightharpoonup> string) \<Rightarrow> (string \<times> string) list
     \<Rightarrow> (string \<times> (string \<times> (string \<times> 'd) list) list) list \<times> string list
     \<Rightarrow> error + (string \<times> (string \<times> (string \<times> 'd) list) list) list \<times> string list" where
  "read_allocations lib known_slot_types [] (allocs, warnings) = Inr (allocs, warnings)"
| "read_allocations lib known_slot_types ((key, val) # kvpairs) (allocs, warnings) =
     (if str_endswith key ''_SHARES''
      then
        (let slot_name = str_lower (take (length key - 7) key);
             device_name = hd (str_split CHR ''.'' slot_name)
         in case read_entries lib known_slot_types slot_name (str_split CHR '','' val)
                   ([], warnings) of
              Inl e \<Rightarrow> Inl e
            | Inr (per_device_alloc, warnings') \<Rightarrow>
                read_allocations lib known_slot_types kvpairs
                  (allocations_set allocs device_name slot_name per_device_alloc, warnings'))
      else read_allocations lib known_slot_types kvpairs (allocs, warnings))"

text \<open>\<^verbatim>\<open>mounts = [Mount.from_str(m) for m in kvpairs['MOUNTS'].split(',') if m]\<close>\<close>

fun read_mounts :: "string list \<Rightarrow> error + Mount list" where
  "read_mounts [] = Inr []"
| "read_mounts (m # rest) =
     (if m = [] then read_mounts rest
      else (case Mount_from_str m of
              Inl e \<Rightarrow> Inl e
            | Inr mount \<Rightarrow>
                (case read_mounts rest of Inl e \<Rightarrow> Inl e | Inr ms \<Rightarrow> Inr (mount # ms))))"

text \<open>
  \<^verbatim>\<open>
  mounts = [Mount.from_str(m) for m in kvpairs['MOUNTS'].split(',') if m]
  return cls(
      container_id=kvpairs.get('CID', 'unknown'),
      scratch_disk_size=BinarySize.finite_from_str(kvpairs['SCRATCH_SIZE']),
      allocations=dict(allocations),
      slots=ResourceSlot(json.loads(kvpairs['SLOTS'])),
      mounts=mounts,
  )
  \<close>
  A subscript on a key that \<open>kvpairs\<close> does not have raises \<^verbatim>\<open>KeyError\<close>, outside the
  \<^verbatim>\<open>try\<close> of the loop.  \<open>read_from_string_log\<close> returns the record with the warnings
  logged on the way, \<open>read_from_string\<close> the record alone.
\<close>

definition read_from_string_log ::
  "'d library \<Rightarrow> (string \<rightharpoonup> string) \<Rightarrow> string \<Rightarrow> error + 'd KernelResourceSpec \<times> string list"
  where
  "read_from_string_log lib known_slot_types text =
     (let kvpairs = read_kvpairs text in
      case read_allocations lib known_slot_types kvpairs ([], []) of
        Inl e \<Rightarrow> Inl e
      | Inr (allocs, warnings) \<Rightarrow>
      (case map_of kvpairs ''MOUNTS'' of
        None \<Rightarrow> Inl (KeyError ''MOUNTS'')
      | Some mounts_val \<Rightarrow>
      (case read_mounts (str_split CHR '','' mounts_val) of
        Inl e \<Rightarrow> Inl e
      | Inr ms \<Rightarrow>
      (case map_of kvpairs ''SCRATCH_SIZE'' of
        None \<Rightarrow> Inl (KeyError ''SCRATCH_SIZE'')
      | Some size_val \<Rightarrow>
      (case BinarySize_finite_from_str lib size_val of
        Inl e \<Rightarrow> Inl e
      | Inr scratch \<Rightarrow>
      (case map_of kvpairs ''SLOTS'' of
        None \<Rightarrow> Inl (KeyError ''SLOTS'')
      | Some slots_val \<Rightarrow>
      (case ResourceSlot_of_json lib slots_val of
        Inl e \<Rightarrow> Inl e
      | Inr sl \<Rightarrow>
          Inr (\<lparr>container_id =
                  (case map_of kvpairs ''CID'' of None \<Rightarrow> ''unknown'' | Some cid \<Rightarrow> cid),
                slots = sl, allocations = allocs, scratch_disk_size = scratch, mounts = ms\<rparr>,
               warnings))))))))"

definition read_from_string ::
  "'d library \<Rightarrow> (string \<rightharpoonup> string) \<Rightarrow> string \<Rightarrow> error + 'd KernelResourceSpec" where
  "read_from_string lib known_slot_types text =
     (case read_from_string_log lib known_slot_types text of
        Inl e \<Rightarrow> Inl e
      | Inr (r, warnings) \<Rightarrow> Inr r)"

subsection \<open>An instance of the library\<close>

text \<open>
  To run the model on concrete records and texts the parameters need values.  This
  instance covers the decimals that are integers, written in decimal digits with an optional
  minus sign, and the JSON objects whose keys and values need no escape.
\<close>

fun str_of_nat :: "nat \<Rightarrow> string" where
  "str_of_nat n =
     (if n < 10 then [char_of (48 + n)]
      else str_of_nat (n div 10) @ [char_of (48 + n mod 10)])"

declare str_of_nat.simps [simp del]

definition isdigit :: "char \<Rightarrow> bool" where
  "isdigit c = (48 \<le> (of_char c :: nat) \<and> (of_char c :: nat) \<le> 57)"

definition nat_of_str :: "string \<Rightarrow> nat option" where
  "nat_of_str s =
     (if s \<noteq> [] \<and> list_all isdigit s
      then Some (foldl (\<lambda>acc c. 10 * acc + (of_char c - 48)) 0 s)
      else None)"

definition int_Decimal_of_str :: "string \<Rightarrow> error + int" where
  "int_Decimal_of_str s =
     (case nat_of_str (if take 1 s = ''-'' then drop 1 s else s) of
        None \<Rightarrow> Inl InvalidOperation
      | Some n \<Rightarrow> Inr (if take 1 s = ''-'' then - int n else int n))"

definition int_Decimal_str :: "int \<Rightarrow> string" where
  "int_Decimal_str d = (if d < 0 then ''-'' else []) @ str_of_nat (nat \<bar>d\<bar>)"

text \<open>
  Modelled from the spec: \<^verbatim>\<open>BinarySize\<close> of \<^verbatim>\<open>ai.backend.common.types\<close> is not among the
  sources.  The spec calls its rendering the human-readable binary-size suffix form and
  gives \<open>10g\<close> for \<open>10 * 2^30\<close> bytes.  A size in whole units is a count followed by the
  letter of a binary unit; \<open>binary_unit\<close> gives the number of bytes of a unit letter.
\<close>

definition binary_unit :: "char \<Rightarrow> int option" where
  "binary_unit c =
     (if c = CHR ''k'' then Some (2 ^ 10) else if c = CHR ''m'' then Some (2 ^ 20)
      else if c = CHR ''g'' then Some (2 ^ 30) else if c = CHR ''t'' then Some (2 ^ 40)
      else if c = CHR ''p'' then Some (2 ^ 50) else if c = CHR ''e'' then Some (2 ^ 60)
      else None)"

definition whole_units_str :: "nat \<Rightarrow> char \<Rightarrow> string" where
  "whole_units_str q c = str_of_nat q @ [c]"

text \<open>
  Modelled from the spec: \<^verbatim>\<open>BinarySize\<close> again, for the instance.  It renders a size with
  a given unit letter as the whole number of units in it,
  and with the letter \<open>s\<close> in the largest unit that does not exceed it (in bytes, without a
  letter, below \<open>2^10\<close>); it parses a count with an optional unit letter.
\<close>

definition auto_unit :: "int \<Rightarrow> char option" where
  "auto_unit n =
     (if n < 2 ^ 10 then None else if n < 2 ^ 20 then Some CHR ''k''
      else if n < 2 ^ 30 then Some CHR ''m'' else if n < 2 ^ 40 then Some CHR ''g''
      else if n < 2 ^ 50 then Some CHR ''t'' else if n < 2 ^ 60 then Some CHR ''p''
      else Some CHR ''e'')"

definition units_BinarySize_format :: "char \<Rightarrow> int \<Rightarrow> string" where
  "units_BinarySize_format c n =
     (case (if c = CHR ''s'' then auto_unit n else Some c) of
        None \<Rightarrow> str_of_nat (nat n)
      | Some u \<Rightarrow>
          (case binary_unit u of
             None \<Rightarrow> str_of_nat (nat n)
           | Some b \<Rightarrow> whole_units_str (nat (n div b)) u))"

definition units_BinarySize_from_str :: "string \<Rightarrow> error + int" where
  "units_BinarySize_from_str s =
     (case nat_of_str s of
        Some n \<Rightarrow> Inr (int n)
      | None \<Rightarrow>
          (if s = [] then Inl ValueError
           else (case (nat_of_str (butlast s), binary_unit (last s)) of
                   (Some q, Some b) \<Rightarrow> Inr (int q * b)
                 | _ \<Rightarrow> Inl ValueError)))"

text \<open>JSON objects from strings to strings, in the layout of \<^verbatim>\<open>json.dumps\<close>, for keys and
  values that hold no quote, no backslash and no control character.\<close>

definition plain_json_dumps :: "(string \<times> string) list \<Rightarrow> string" where
  "plain_json_dumps d =
     ''{'' @ str_join '', '' (map (\<lambda>(k, v). [CHR 0x22] @ k @ [CHR 0x22] @ '': ''
                                            @ [CHR 0x22] @ v @ [CHR 0x22]) d) @ ''}''"

fun plain_json_items :: "string list \<Rightarrow> (string \<times> string) list option" where
  "plain_json_items (k # colon # v # sep # rest) =
     (if colon \<noteq> '': '' then None
      else if sep = ''}'' \<and> rest = [] then Some [(k, v)]
      else if sep = '', '' then map_option (\<lambda>items. (k, v) # items) (plain_json_items rest)
      else None)"
| "plain_json_items _ = None"

definition plain_json_loads :: "string \<Rightarrow> error + (string \<times> string) list" where
  "plain_json_loads s =
     (if s = ''{}'' then Inr []
      else (case str_split (CHR 0x22) s of
              opening # rest \<Rightarrow>
                (if opening = ''{''
                 then (case plain_json_items rest of
                         None \<Rightarrow> Inl JSONDecodeError
                       | Some d \<Rightarrow> Inr d)
                 else Inl JSONDecodeError)
            | [] \<Rightarrow> Inl JSONDecodeError))"

definition int_library :: "int library" where
  "int_library =
     \<lparr>Decimal_of_str = int_Decimal_of_str,
      Decimal_of_BinarySize = (\<lambda>n. n),
      Decimal_str = int_Decimal_str,
      BinarySize_of_Decimal = (\<lambda>d. d),
      BinarySize_format = units_BinarySize_format,
      BinarySize_from_str = units_BinarySize_from_str,
      BinarySize_finite_from_str = units_BinarySize_from_str,
      json_dumps = plain_json_dumps,
      ResourceSlot_of_json = plain_json_loads\<rparr>"

subsection \<open>The keys of a text\<close>

text \<open>
  The key and the value \<^verbatim>\<open>read_from_string\<close> takes from a line that holds \<open>=\<close>.  A text
  has a key when one of its lines holds \<open>=\<close> and, stripped, has the key before its first
  \<open>=\<close>: these are the keys of \<open>kvpairs\<close>.
\<close>

definition line_key :: "string \<Rightarrow> string" where
  "line_key line = fst (str_partition CHR ''='' (str_strip line))"

definition line_val :: "string \<Rightarrow> string" where
  "line_val line = snd (str_partition CHR ''='' (str_strip line))"

definition has_key :: "string \<Rightarrow> string \<Rightarrow> bool" where
  "has_key text key =
     (\<exists>line \<in> set (str_split CHR 0x0A text). CHR ''='' \<in> set line \<and> line_key line = key)"

text \<open>
  How a slot name and its device name come from the keys \<open>K\<close> of a text: the slot name is
  a key that ends in \<open>_SHARES\<close>, without the suffix and in lower case, and the device name
  is its first field when it is split at the dots.
\<close>

definition slot_from_keys :: "string set \<Rightarrow> string \<Rightarrow> string \<Rightarrow> bool" where
  "slot_from_keys K device_name slot_name \<longleftrightarrow>
     device_name = hd (str_split CHR ''.'' slot_name)
     \<and> (\<exists>key \<in> K. str_endswith key ''_SHARES''
           \<and> slot_name = str_lower (take (length key - 7) key))"

subsection \<open>Records that survive the text form\<close>

text \<open>
  The text form has no quoting, so a record comes back from it only when its strings stay
  clear of the separators.  The conditions, field by field:
  \<^item> a value that ends a line has no line feed and no white space at its end, which
    \<^verbatim>\<open>strip\<close> would remove;
  \<^item> a path is in pathlib's normal form and its components hold no \<open>:\<close>, \<open>,\<close> or line feed;
  \<^item> a mount has no options, a BIND mount an absolute path as source, a VOLUME mount a
    string that is one path component;
  \<^item> a slot name is ASCII without upper-case letters, \<open>=\<close> and line feed, and does not
    start with white space;
  \<^item> a device id is not empty and holds no \<open>:\<close>, \<open>,\<close> or line feed;
  \<^item> a device name holds no dot, has at least one slot, and each of its slot names is the
    device name or starts with the device name and a dot;
  \<^item> the keys of each mapping are distinct, as in every \<^verbatim>\<open>dict\<close>.
\<close>

definition line_value_ok :: "string \<Rightarrow> bool" where
  "line_value_ok v \<longleftrightarrow> CHR 0x0A \<notin> set v \<and> (v = [] \<or> \<not> isspace (last v))"

definition path_normal :: "path \<Rightarrow> bool" where
  "path_normal p \<longleftrightarrow>
     (root p = [] \<or> root p = ''/'' \<or> root p = ''//'')
     \<and> (\<forall>x \<in> set (parts p). x \<noteq> [] \<and> x \<noteq> ''.'' \<and> CHR ''/'' \<notin> set x)"

definition path_plain :: "path \<Rightarrow> bool" where
  "path_plain p \<longleftrightarrow>
     (\<forall>x \<in> set (parts p). CHR '':'' \<notin> set x \<and> CHR '','' \<notin> set x \<and> CHR 0x0A \<notin> set x)"

definition mount_ok :: "Mount \<Rightarrow> bool" where
  "mount_ok m \<longleftrightarrow>
     opts m = None
     \<and> path_normal (target m) \<and> path_plain (target m) \<and> is_absolute (target m)
     \<and> (case source m of
          Source_None \<Rightarrow> False
        | Source_Path p \<Rightarrow> type m = BIND \<and> path_normal p \<and> path_plain p \<and> is_absolute p
        | Source_str s \<Rightarrow> type m = VOLUME \<and> path_normal (Path [] [s]) \<and> path_plain (Path [] [s]))"

text \<open>The amount of an entry as \<^verbatim>\<open>write_to_string\<close> renders it, by the type of the slot.\<close>

definition write_alloc :: "'d library \<Rightarrow> (string \<rightharpoonup> string) \<Rightarrow> string \<Rightarrow> 'd \<Rightarrow> string" where
  "write_alloc lib known_slot_types slot_name alloc =
     (if slot_type known_slot_types slot_name = ''bytes''
      then BinarySize_format lib CHR ''s'' (BinarySize_of_Decimal lib alloc)
      else Decimal_str lib alloc)"

text \<open>
  An amount survives when the library reads its rendering back to it, and the rendering is
  not empty and holds no \<open>,\<close>, no line feed and no white space at its end.
\<close>

definition alloc_ok :: "'d library \<Rightarrow> (string \<rightharpoonup> string) \<Rightarrow> string \<Rightarrow> 'd \<Rightarrow> bool" where
  "alloc_ok lib known_slot_types slot_name alloc \<longleftrightarrow>
     write_alloc lib known_slot_types slot_name alloc \<noteq> []
     \<and> CHR '','' \<notin> set (write_alloc lib known_slot_types slot_name alloc)
     \<and> line_value_ok (write_alloc lib known_slot_types slot_name alloc)
     \<and> read_alloc lib known_slot_types slot_name
          (write_alloc lib known_slot_types slot_name alloc) = Inr alloc"

text \<open>
  What \<^verbatim>\<open>read_from_string\<close> makes of the rendering of an amount, whether or not it is the
  amount.  The rendering can stand in its line when it is not empty and holds no \<open>,\<close>, no
  line feed and no white space at its end, and it is read when the library raises nothing
  on it; \<open>reread_amount\<close> is then the amount read.
\<close>

definition rendering_ok :: "'d library \<Rightarrow> (string \<rightharpoonup> string) \<Rightarrow> string \<Rightarrow> 'd \<Rightarrow> bool" where
  "rendering_ok lib known_slot_types slot_name alloc \<longleftrightarrow>
     write_alloc lib known_slot_types slot_name alloc \<noteq> []
     \<and> CHR '','' \<notin> set (write_alloc lib known_slot_types slot_name alloc)
     \<and> line_value_ok (write_alloc lib known_slot_types slot_name alloc)
     \<and> (case read_alloc lib known_slot_types slot_name
                (write_alloc lib known_slot_types slot_name alloc) of
          Inl e \<Rightarrow> False
        | Inr alloc' \<Rightarrow> True)"

definition reread_amount :: "'d library \<Rightarrow> (string \<rightharpoonup> string) \<Rightarrow> string \<Rightarrow> 'd \<Rightarrow> 'd" where
  "reread_amount lib known_slot_types slot_name alloc =
     (case read_alloc lib known_slot_types slot_name
             (write_alloc lib known_slot_types slot_name alloc) of
        Inl e \<Rightarrow> alloc
      | Inr alloc' \<Rightarrow> alloc')"

definition dev_id_ok :: "string \<Rightarrow> bool" where
  "dev_id_ok dev_id \<longleftrightarrow>
     dev_id \<noteq> [] \<and> CHR '':'' \<notin> set dev_id \<and> CHR '','' \<notin> set dev_id \<and> CHR 0x0A \<notin> set dev_id"

definition slot_name_ok :: "string \<Rightarrow> bool" where
  "slot_name_ok slot_name \<longleftrightarrow>
     (\<forall>c \<in> set slot_name. (of_char c :: nat) < 128 \<and> \<not> isupper c \<and> c \<noteq> CHR ''='' \<and> c \<noteq> CHR 0x0A)
     \<and> (slot_name = [] \<or> \<not> isspace (hd slot_name))"

definition slot_shape_ok :: "string \<Rightarrow> string \<times> (string \<times> 'd) list \<Rightarrow> bool" where
  "slot_shape_ok device_name slot \<longleftrightarrow>
     (fst slot = device_name \<or> str_startswith (fst slot) (device_name @ ''.''))
     \<and> slot_name_ok (fst slot)
     \<and> distinct (map fst (snd slot))
     \<and> (\<forall>item \<in> set (snd slot). dev_id_ok (fst item))"

definition device_shape_ok :: "string \<times> (string \<times> (string \<times> 'd) list) list \<Rightarrow> bool" where
  "device_shape_ok device \<longleftrightarrow>
     CHR ''.'' \<notin> set (fst device) \<and> snd device \<noteq> [] \<and> distinct (map fst (snd device))
     \<and> (\<forall>slot \<in> set (snd device). slot_shape_ok (fst device) slot)"

definition shape_ok :: "'d KernelResourceSpec \<Rightarrow> bool" where
  "shape_ok r \<longleftrightarrow>
     line_value_ok (container_id r)
     \<and> (\<forall>m \<in> set (mounts r). mount_ok m)
     \<and> distinct (map fst (allocations r))
     \<and> (\<forall>device \<in> set (allocations r). device_shape_ok device)"

text \<open>
  What the record asks of the library: the scratch size and the slots are read back from
  their renderings, which can end a line; and so is every amount.
\<close>

definition amounts_ok :: "'d library \<Rightarrow> (string \<rightharpoonup> string) \<Rightarrow> 'd KernelResourceSpec \<Rightarrow> bool" where
  "amounts_ok lib known_slot_types r \<longleftrightarrow>
     (\<forall>device \<in> set (allocations r). \<forall>slot \<in> set (snd device). \<forall>item \<in> set (snd slot).
        alloc_ok lib known_slot_types (fst slot) (snd item))"

definition header_ok :: "'d library \<Rightarrow> 'd KernelResourceSpec \<Rightarrow> bool" where
  "header_ok lib r \<longleftrightarrow>
     line_value_ok (BinarySize_format lib CHR ''m'' (scratch_disk_size r))
     \<and> BinarySize_finite_from_str lib (BinarySize_format lib CHR ''m'' (scratch_disk_size r))
         = Inr (scratch_disk_size r)
     \<and> line_value_ok (json_dumps lib (slots r))
     \<and> ResourceSlot_of_json lib (json_dumps lib (slots r)) = Inr (slots r)"

text \<open>The line of one slot, and its key and value, as \<^verbatim>\<open>write_to_string\<close> makes them.\<close>

definition slot_key :: "string \<Rightarrow> string" where
  "slot_key slot_name = str_upper slot_name @ ''_SHARES''"

definition slot_val ::
  "'d library \<Rightarrow> (string \<rightharpoonup> string) \<Rightarrow> string \<times> (string \<times> 'd) list \<Rightarrow> string" where
  "slot_val lib known_slot_types slot =
     str_join '','' (map (write_piece lib known_slot_types (fst slot)) (snd slot))"


subsection \<open>The text of a record as a list of keys and values\<close>

text \<open>
  \<^verbatim>\<open>write_to_string\<close> writes one line \<open>key=value\<close> for each of the four fields of the header
  and then one for each slot of each device, in the order of the mapping.
\<close>

definition kv_line :: "string \<times> string \<Rightarrow> string" where
  "kv_line kv = fst kv @ ''='' @ snd kv"

definition text_of_kvs :: "(string \<times> string) list \<Rightarrow> string" where
  "text_of_kvs kvs = concat (map (\<lambda>l. l @ [CHR 0x0A]) (map kv_line kvs))"

definition header_kvs :: "'d library \<Rightarrow> 'd KernelResourceSpec \<Rightarrow> (string \<times> string) list" where
  "header_kvs lib r =
     [(''CID'', container_id r),
      (''SCRATCH_SIZE'', BinarySize_format lib CHR ''m'' (scratch_disk_size r)),
      (''MOUNTS'', str_join '','' (map Mount_str (mounts r))),
      (''SLOTS'', json_dumps lib (slots r))]"

definition slot_kv ::
  "'d library \<Rightarrow> (string \<rightharpoonup> string) \<Rightarrow> string \<times> (string \<times> 'd) list \<Rightarrow> string \<times> string" where
  "slot_kv lib kst slot = (slot_key (fst slot), slot_val lib kst slot)"

definition alloc_kvs ::
  "'d library \<Rightarrow> (string \<rightharpoonup> string) \<Rightarrow> (string \<times> (string \<times> (string \<times> 'd) list) list) list
     \<Rightarrow> (string \<times> string) list" where
  "alloc_kvs lib kst allocs =
     concat (map (\<lambda>device. map (\<lambda>slot. (slot_key (fst slot), slot_val lib kst slot))
                                (snd device)) allocs)"

definition slot_names :: "(string \<times> (string \<times> 'v) list) list \<Rightarrow> string list" where
  "slot_names A = concat (map (\<lambda>device. map fst (snd device)) A)"

text \<open>
  A line is read back to its key and value when the key holds no \<open>=\<close> and no line feed and
  does not start with white space, and the value can end a line.
\<close>

definition kv_ok :: "string \<times> string \<Rightarrow> bool" where
  "kv_ok kv \<longleftrightarrow> CHR ''='' \<notin> set (fst kv) \<and> (fst kv = [] \<or> \<not> isspace (hd (fst kv)))
     \<and> line_value_ok (snd kv) \<and> CHR 0x0A \<notin> set (fst kv)"

definition slot_ok ::
  "'d library \<Rightarrow> (string \<rightharpoonup> string) \<Rightarrow> string \<Rightarrow> string \<times> (string \<times> 'd) list \<Rightarrow> bool" where
  "slot_ok lib kst dev slot \<longleftrightarrow>
     slot_shape_ok dev slot
     \<and> (\<forall>item \<in> set (snd slot). rendering_ok lib kst (fst slot) (snd item))"

text \<open>
  The text of a record keeps its lines when no value written on a line holds a line feed
  and no slot name holds \<open>=\<close> or a line feed or starts with white space: then the keys of
  the text are the four keys of the header and one key for each slot name.
\<close>

definition lines_ok :: "'d library \<Rightarrow> (string \<rightharpoonup> string) \<Rightarrow> 'd KernelResourceSpec \<Rightarrow> bool" where
  "lines_ok lib known_slot_types r \<longleftrightarrow>
     (\<forall>kv \<in> set (header_kvs lib r @ alloc_kvs lib known_slot_types (allocations r)).
        CHR 0x0A \<notin> set (snd kv))
     \<and> (\<forall>s \<in> set (slot_names (allocations r)).
          CHR ''='' \<notin> set s \<and> CHR 0x0A \<notin> set s \<and> (s = [] \<or> \<not> isspace (hd s)))"

subsection \<open>The amounts of a record, read again\<close>

text \<open>
  The allocations of a record with every amount replaced by what \<^verbatim>\<open>read_from_string\<close>
  makes of its rendering, when every rendering can stand in its line and is read.
\<close>

definition reread_slot ::
  "'d library \<Rightarrow> (string \<rightharpoonup> string) \<Rightarrow> string \<times> (string \<times> 'd) list
     \<Rightarrow> string \<times> (string \<times> 'd) list" where
  "reread_slot lib known_slot_types slot =
     (fst slot,
      map (\<lambda>item. (fst item, reread_amount lib known_slot_types (fst slot) (snd item)))
        (snd slot))"

definition reread_allocations ::
  "'d library \<Rightarrow> (string \<rightharpoonup> string) \<Rightarrow> (string \<times> (string \<times> (string \<times> 'd) list) list) list
     \<Rightarrow> (string \<times> (string \<times> (string \<times> 'd) list) list) list" where
  "reread_allocations lib known_slot_types allocs =
     map (\<lambda>device. (fst device, map (reread_slot lib known_slot_types) (snd device))) allocs"

definition renderings_ok ::
  "'d library \<Rightarrow> (string \<rightharpoonup> string) \<Rightarrow> 'd KernelResourceSpec \<Rightarrow> bool" where
  "renderings_ok lib known_slot_types r \<longleftrightarrow>
     (\<forall>device \<in> set (allocations r). \<forall>slot \<in> set (snd device). \<forall>item \<in> set (snd slot).
        rendering_ok lib known_slot_types (fst slot) (snd item))"

subsection \<open>An example record\<close>

text \<open>
  A record with a CPU device and an accelerator whose memory slot is registered in bytes,
  a scratch size of one gibibyte, a bind mount and a volume mount.
\<close>

definition example_slot_types :: "string \<rightharpoonup> string" where
  "example_slot_types =
     [''cpu'' \<mapsto> ''count'', ''cuda.smp'' \<mapsto> ''count'', ''cuda.mem'' \<mapsto> ''bytes'']"

definition example_spec :: "int KernelResourceSpec" where
  "example_spec =
     \<lparr>container_id = ''abc123'',
      slots = [(''cpu'', ''2''), (''cuda.mem'', ''10g'')],
      allocations =
        [(''cpu'', [(''cpu'', [(''0'', 1), (''1'', 1)])]),
         (''cuda'', [(''cuda.smp'', [(''0'', 20)]), (''cuda.mem'', [(''0'', 10 * 2 ^ 30)])])],
      scratch_disk_size = 2 ^ 30,
      mounts =
        [\<lparr>type = BIND, source = Source_Path (Path ''/'' [''data'']),
          target = Path ''/'' [''home'', ''work''], permission = READ_WRITE, opts = None\<rparr>,
         \<lparr>type = VOLUME, source = Source_str ''vol1'',
          target = Path ''/'' [''mnt''], permission = READ_ONLY, opts = None\<rparr>]\<rparr>"

section \<open>Properties\<close>

subsection \<open>Bit positions of a mask\<close>

lemma bitmask2set_loop_positions:
  "0 \<le> msk \<Longrightarrow>
   set (bitmask2set_loop msk bpos bset) = set bset \<union> (\<lambda>n. bpos + int n) ` {n. bit msk n}"
proof (induction msk bpos bset rule: bitmask2set_loop.induct)
  case (1 msk bpos bset)
  show ?case
  proof (cases "msk > 0")
    case False
    with "1.prems" have "msk = 0" by simp
    then show ?thesis by (subst bitmask2set_loop.simps) auto
  next
    case True
    let ?bset' = "if and msk 1 = 1 then bset @ [bpos] else bset"
    have step: "set (bitmask2set_loop (drop_bit 1 msk) (bpos + 1) ?bset') =
        set ?bset' \<union> (\<lambda>n. bpos + 1 + int n) ` {n. bit (drop_bit 1 msk) n}"
      using "1.IH" [OF True] "1.prems" by (simp add: drop_bit_eq_div)
    have low: "and msk 1 = 1 \<longleftrightarrow> bit msk 0"
      by (simp add: and_one_eq bit_0 mod_2_eq_odd)
    have shift: "(\<lambda>n. bpos + 1 + int n) ` {n. bit (drop_bit 1 msk) n}
        = (\<lambda>n. bpos + int n) ` {n. bit msk n \<and> 0 < n}"
    proof (rule set_eqI, rule iffI)
      fix x assume "x \<in> (\<lambda>n. bpos + 1 + int n) ` {n. bit (drop_bit 1 msk) n}"
      then obtain n where n: "bit (drop_bit 1 msk) n" "x = bpos + 1 + int n" by blast
      then have "bit msk (Suc n)" by (simp add: bit_drop_bit_eq)
      with n have "x = bpos + int (Suc n) \<and> bit msk (Suc n) \<and> 0 < Suc n" by simp
      then show "x \<in> (\<lambda>n. bpos + int n) ` {n. bit msk n \<and> 0 < n}" by blast
    next
      fix x assume "x \<in> (\<lambda>n. bpos + int n) ` {n. bit msk n \<and> 0 < n}"
      then obtain n where n: "bit msk n" "0 < n" "x = bpos + int n" by blast
      then obtain k where k: "n = Suc k" by (cases n) auto
      with n have "bit (drop_bit 1 msk) k \<and> x = bpos + 1 + int k"
        by (simp add: bit_drop_bit_eq)
      then show "x \<in> (\<lambda>n. bpos + 1 + int n) ` {n. bit (drop_bit 1 msk) n}" by blast
    qed
    have split: "{n. bit msk n} = (if bit msk 0 then {0} else {}) \<union> {n. bit msk n \<and> 0 < n}"
      by (auto intro: gr0I)
    have "set (bitmask2set_loop msk bpos bset)
        = set (bitmask2set_loop (drop_bit 1 msk) (bpos + 1) ?bset')"
      using True by (subst bitmask2set_loop.simps) simp
    also have "\<dots> = set ?bset' \<union> (\<lambda>n. bpos + int n) ` {n. bit msk n \<and> 0 < n}"
      using step shift by simp
    also have "\<dots> = set bset \<union> (\<lambda>n. bpos + int n) ` {n. bit msk n}"
    proof -
      have "(\<lambda>n. bpos + int n) ` {n. bit msk n}
          = (if bit msk 0 then {bpos} else {}) \<union> (\<lambda>n. bpos + int n) ` {n. bit msk n \<and> 0 < n}"
        by (subst split) (simp add: image_Un)
      then show ?thesis by (auto simp: low)
    qed
    finally show ?thesis .
  qed
qed

text \<open>
  C6.  For a non-negative mask, \<open>bitmask2set\<close> returns exactly the zero-based positions of
  the bits of the mask that are set; the mask \<open>0b1011 = 11\<close> gives \<open>{0, 1, 3}\<close> and the msk
  \<open>0\<close> gives the empty set.
\<close>

theorem bitmask2set_set_bits:
  "(0 \<le> msk \<longrightarrow> bitmask2set msk = int ` {n. bit msk n})
   \<and> bitmask2set 11 = {0, 1, 3} \<and> bitmask2set 0 = {}"
proof (intro conjI impI)
  assume "0 \<le> msk"
  then show "bitmask2set msk = int ` {n. bit msk n}"
    by (simp add: bitmask2set_def bitmask2set_loop_positions)
next
  show "bitmask2set 11 = {0, 1, 3}"
    by (simp add: bitmask2set_def bitmask2set_loop.simps drop_bit_eq_div and_one_eq)
next
  show "bitmask2set 0 = {}"
    by (simp add: bitmask2set_def bitmask2set_loop.simps)
qed

theorem bitmask2set_set_bits_witness:
  "(0::int) \<le> 5 \<and> bitmask2set 5 = int ` {n. bit (5::int) n} \<and> bitmask2set 5 = {0, 2}"
proof -
  have "bitmask2set 5 = {0, 2}"
    by (simp add: bitmask2set_def bitmask2set_loop.simps drop_bit_eq_div and_one_eq)
  then show ?thesis
    using bitmask2set_set_bits [of 5] by simp
qed

subsection \<open>Order of the discovered plugins\<close>

lemma insort_key_between:
  "\<forall>a \<in> set as. f a < f x \<Longrightarrow> \<forall>b \<in> set bs. f x \<le> f b \<Longrightarrow>
   insort_key f x (as @ bs) = as @ x # bs"
proof (induction as)
  case Nil
  then show ?case by (cases bs) auto
next
  case (Cons a as)
  then show ?case by auto
qed

lemma sort_key_accel_lt_intrinsic:
  "sort_key accel_lt_intrinsic xs = filter (\<lambda>p. \<not> intrinsic p) xs @ filter intrinsic xs"
proof (induction xs)
  case Nil
  then show ?case by simp
next
  case (Cons x xs)
  let ?as = "filter (\<lambda>p. \<not> intrinsic p) xs" and ?bs = "filter intrinsic xs"
  have bs: "\<forall>b \<in> set ?bs. accel_lt_intrinsic b = 0"
    by (auto simp: accel_lt_intrinsic_def intrinsic_def)
  have as: "\<forall>a \<in> set ?as. accel_lt_intrinsic a = - 1"
    by (auto simp: accel_lt_intrinsic_def intrinsic_def)
  show ?case
  proof (cases "intrinsic x")
    case True
    then have x: "accel_lt_intrinsic x = 0"
      by (auto simp: accel_lt_intrinsic_def intrinsic_def)
    have "insort_key accel_lt_intrinsic x (?as @ ?bs) = ?as @ x # ?bs"
      by (rule insort_key_between) (use as bs x in auto)
    with Cons True show ?thesis by simp
  next
    case False
    then have x: "accel_lt_intrinsic x = - 1"
      by (auto simp: accel_lt_intrinsic_def intrinsic_def)
    have "insort_key accel_lt_intrinsic x ([] @ (?as @ ?bs)) = [] @ x # (?as @ ?bs)"
      by (rule insort_key_between) (use as bs x in auto)
    with Cons False show ?thesis by simp
  qed
qed

text \<open>
  C7.  \<open>discover_plugins\<close> yields the scanned pairs with every pair named \<open>cpu\<close> or \<open>mem\<close>
  after every other pair, each of the two groups in discovery order; the discovery order
  \<open>[gpu, cpu, fpga, mem]\<close> yields \<open>[gpu, fpga, cpu, mem]\<close>.
\<close>

theorem discover_plugins_intrinsic_last:
  "discover_plugins xs = filter (\<lambda>p. \<not> intrinsic p) xs @ filter intrinsic xs
   \<and> discover_plugins [(''gpu'', a), (''cpu'', b), (''fpga'', c), (''mem'', d)]
       = [(''gpu'', a), (''fpga'', c), (''cpu'', b), (''mem'', d)]"
proof
  show "discover_plugins xs = filter (\<lambda>p. \<not> intrinsic p) xs @ filter intrinsic xs"
    unfolding discover_plugins_def by (rule sort_key_accel_lt_intrinsic)
next
  show "discover_plugins [(''gpu'', a), (''cpu'', b), (''fpga'', c), (''mem'', d)]
       = [(''gpu'', a), (''fpga'', c), (''cpu'', b), (''mem'', d)]"
    by (simp add: discover_plugins_def accel_lt_intrinsic_def)
qed

subsection \<open>Facts about the string methods\<close>

lemma str_split_not_Nil [simp]: "str_split sep s \<noteq> []"
  by (induction s) (auto split: list.splits)

lemma str_split_no_sep: "sep \<notin> set a \<Longrightarrow> str_split sep a = [a]"
  by (induction a) auto

lemma str_split_append: "sep \<notin> set a \<Longrightarrow> str_split sep (a @ sep # b) = a # str_split sep b"
  by (induction a) auto

lemma hd_str_split: "hd (str_split sep s) = takeWhile (\<lambda>c. c \<noteq> sep) s"
  by (induction s) (auto split: list.splits)

subsection \<open>Mount.from\_str\<close>

text \<open>
  C5.  \<open>Mount_from_str\<close> fails unless the split on \<open>:\<close> gives exactly three fields and the
  third is a permission value; with an absolute source it gives a BIND mount, with a
  relative source of one component a VOLUME mount, with any other relative source and with a
  target that is not absolute it raises.  The four examples of the spec are included.
\<close>

theorem Mount_from_str_cases:
  "(length (str_split CHR '':'' s) \<noteq> 3 \<longrightarrow> Mount_from_str s = Inl ValueError)
   \<and> (str_split CHR '':'' s = [sf, tf, pf] \<longrightarrow>
        (pf \<noteq> ''ro'' \<and> pf \<noteq> ''rw'' \<longrightarrow> Mount_from_str s = Inl ValueError)
      \<and> (\<not> is_absolute (Path_of_str sf) \<and> length (parts (Path_of_str sf)) \<noteq> 1
            \<longrightarrow> Mount_from_str s = Inl ValueError)
      \<and> (\<not> is_absolute (Path_of_str tf) \<longrightarrow> Mount_from_str s = Inl ValueError)
      \<and> (is_absolute (Path_of_str sf) \<and> is_absolute (Path_of_str tf)
            \<and> MountPermission_of_value pf = Inr perm
            \<longrightarrow> Mount_from_str s =
                  Inr \<lparr>type = BIND, source = Source_Path (Path_of_str sf),
                       target = Path_of_str tf, permission = perm, opts = None\<rparr>)
      \<and> (\<not> is_absolute (Path_of_str sf) \<and> length (parts (Path_of_str sf)) = 1
            \<and> is_absolute (Path_of_str tf) \<and> MountPermission_of_value pf = Inr perm
            \<longrightarrow> Mount_from_str s =
                  Inr \<lparr>type = VOLUME, source = Source_str (path_str (Path_of_str sf)),
                       target = Path_of_str tf, permission = perm, opts = None\<rparr>))
   \<and> Mount_from_str ''/data:/workspace:rw'' =
        Inr \<lparr>type = BIND, source = Source_Path (Path ''/'' [''data'']),
             target = Path ''/'' [''workspace''], permission = READ_WRITE, opts = None\<rparr>
   \<and> Mount_from_str ''myvol:/workspace:ro'' =
        Inr \<lparr>type = VOLUME, source = Source_str ''myvol'',
             target = Path ''/'' [''workspace''], permission = READ_ONLY, opts = None\<rparr>
   \<and> Mount_from_str ''rel/path:/workspace:ro'' = Inl ValueError
   \<and> Mount_from_str ''/data:rel/target:ro'' = Inl ValueError"
proof (intro conjI impI)
  assume "length (str_split CHR '':'' s) \<noteq> 3"
  then show "Mount_from_str s = Inl ValueError"
    by (auto simp: Mount_from_str_def split: list.splits)
next
  assume "str_split CHR '':'' s = [sf, tf, pf]" "pf \<noteq> ''ro'' \<and> pf \<noteq> ''rw''"
  then show "Mount_from_str s = Inl ValueError"
    by (simp add: Mount_from_str_def Let_def MountPermission_of_value_def)
next
  assume "str_split CHR '':'' s = [sf, tf, pf]"
    "\<not> is_absolute (Path_of_str sf) \<and> length (parts (Path_of_str sf)) \<noteq> 1"
  then show "Mount_from_str s = Inl ValueError"
    by (simp add: Mount_from_str_def Let_def)
next
  assume "str_split CHR '':'' s = [sf, tf, pf]" "\<not> is_absolute (Path_of_str tf)"
  then show "Mount_from_str s = Inl ValueError"
    by (simp add: Mount_from_str_def Let_def)
next
  assume "str_split CHR '':'' s = [sf, tf, pf]"
    "is_absolute (Path_of_str sf) \<and> is_absolute (Path_of_str tf)
       \<and> MountPermission_of_value pf = Inr perm"
  then show "Mount_from_str s =
      Inr \<lparr>type = BIND, source = Source_Path (Path_of_str sf),
           target = Path_of_str tf, permission = perm, opts = None\<rparr>"
    by (simp add: Mount_from_str_def Let_def)
next
  assume "str_split CHR '':'' s = [sf, tf, pf]"
    "\<not> is_absolute (Path_of_str sf) \<and> length (parts (Path_of_str sf)) = 1
       \<and> is_absolute (Path_of_str tf) \<and> MountPermission_of_value pf = Inr perm"
  then show "Mount_from_str s =
      Inr \<lparr>type = VOLUME, source = Source_str (path_str (Path_of_str sf)),
           target = Path_of_str tf, permission = perm, opts = None\<rparr>"
    by (simp add: Mount_from_str_def Let_def)
next
  show "Mount_from_str ''/data:/workspace:rw'' =
        Inr \<lparr>type = BIND, source = Source_Path (Path ''/'' [''data'']),
             target = Path ''/'' [''workspace''], permission = READ_WRITE, opts = None\<rparr>"
    by (simp add: Mount_from_str_def Path_of_str_def is_absolute_def
        MountPermission_of_value_def)
next
  show "Mount_from_str ''myvol:/workspace:ro'' =
        Inr \<lparr>type = VOLUME, source = Source_str ''myvol'',
             target = Path ''/'' [''workspace''], permission = READ_ONLY, opts = None\<rparr>"
    by (simp add: Mount_from_str_def Path_of_str_def is_absolute_def
        MountPermission_of_value_def path_str_def)
next
  show "Mount_from_str ''rel/path:/workspace:ro'' = Inl ValueError"
    by (simp add: Mount_from_str_def Path_of_str_def is_absolute_def)
next
  show "Mount_from_str ''/data:rel/target:ro'' = Inl ValueError"
    by (simp add: Mount_from_str_def Path_of_str_def is_absolute_def)
qed

theorem Mount_from_str_cases_witness:
  "str_split CHR '':'' ''./vol:/w:rw'' = [''./vol'', ''/w'', ''rw'']
   \<and> \<not> is_absolute (Path_of_str ''./vol'') \<and> length (parts (Path_of_str ''./vol'')) = 1
   \<and> is_absolute (Path_of_str ''/w'') \<and> MountPermission_of_value ''rw'' = Inr READ_WRITE
   \<and> Mount_from_str ''./vol:/w:rw'' =
        Inr \<lparr>type = VOLUME, source = Source_str ''vol'', target = Path ''/'' [''w''],
             permission = READ_WRITE, opts = None\<rparr>
   \<and> length (str_split CHR '':'' ''/a:/b'') \<noteq> 3 \<and> Mount_from_str ''/a:/b'' = Inl ValueError"
proof -
  have split: "str_split CHR '':'' ''./vol:/w:rw'' = [''./vol'', ''/w'', ''rw'']"
    by simp
  have src: "\<not> is_absolute (Path_of_str ''./vol'') \<and> length (parts (Path_of_str ''./vol'')) = 1"
    by (simp add: Path_of_str_def is_absolute_def)
  have tgt: "is_absolute (Path_of_str ''/w'')"
    by (simp add: Path_of_str_def is_absolute_def)
  have perm: "MountPermission_of_value ''rw'' = Inr READ_WRITE"
    by (simp add: MountPermission_of_value_def)
  have len: "length (str_split CHR '':'' ''/a:/b'') \<noteq> 3"
    by simp
  have vals: "path_str (Path_of_str ''./vol'') = ''vol''" "Path_of_str ''/w'' = Path ''/'' [''w'']"
    by (simp_all add: Path_of_str_def path_str_def)
  from Mount_from_str_cases [of "''./vol:/w:rw''" "''./vol''" "''/w''" "''rw''" READ_WRITE]
    split src tgt perm
  have "Mount_from_str ''./vol:/w:rw'' =
      Inr \<lparr>type = VOLUME, source = Source_str (path_str (Path_of_str ''./vol'')),
           target = Path_of_str ''/w'', permission = READ_WRITE, opts = None\<rparr>"
    by blast
  moreover from Mount_from_str_cases [of "''/a:/b''"] len
  have "Mount_from_str ''/a:/b'' = Inl ValueError"
    by blast
  ultimately show ?thesis
    using split src tgt perm len vals by simp
qed

subsection \<open>The family prefix on write\<close>

lemma write_slots_error:
  "write_slots lib kst device_name sl acc = Inl e \<Longrightarrow> e = ValueError"
  by (induction sl arbitrary: acc) (auto simp: Let_def split: if_splits)

lemma write_slots_violation:
  "(slot_name, per_device_alloc) \<in> set sl \<Longrightarrow>
   \<not> (str_startswith slot_name (device_name @ ''.'') \<or> slot_name = device_name) \<Longrightarrow>
   write_slots lib kst device_name sl acc = Inl ValueError"
proof (induction sl arbitrary: acc)
  case Nil
  then show ?case by simp
next
  case (Cons x sl)
  obtain s p where x: "x = (s, p)" by (cases x)
  show ?case
  proof (cases "str_startswith s (device_name @ ''.'') \<or> s = device_name")
    case False
    then show ?thesis by (simp add: x)
  next
    case True
    with Cons.prems x have "(slot_name, per_device_alloc) \<in> set sl" by auto
    from Cons.IH [OF this Cons.prems(2)] True show ?thesis
      by (simp add: x Let_def)
  qed
qed

lemma write_allocations_violation:
  "(device_name, slots_of_device) \<in> set al \<Longrightarrow>
   (slot_name, per_device_alloc) \<in> set slots_of_device \<Longrightarrow>
   \<not> (str_startswith slot_name (device_name @ ''.'') \<or> slot_name = device_name) \<Longrightarrow>
   write_allocations lib kst al acc = Inl ValueError"
proof (induction al arbitrary: acc)
  case Nil
  then show ?case by simp
next
  case (Cons x al)
  obtain d sl where x: "x = (d, sl)" by (cases x)
  show ?case
  proof (cases "write_slots lib kst d sl acc")
    case (Inl e)
    then show ?thesis using write_slots_error [OF Inl] by (simp add: x)
  next
    case (Inr acc')
    have "(device_name, slots_of_device) \<noteq> (d, sl)"
    proof
      assume "(device_name, slots_of_device) = (d, sl)"
      with Cons.prems(2,3) have "write_slots lib kst d sl acc = Inl ValueError"
        by (auto intro: write_slots_violation)
      with Inr show False by simp
    qed
    with Cons.prems(1) x have "(device_name, slots_of_device) \<in> set al" by auto
    from Cons.IH [OF this Cons.prems(2,3)] Inr show ?thesis by (simp add: x)
  qed
qed

text \<open>
  C3.  When the allocations of a record hold, under a device name, a slot name that is
  neither the device name nor the device name followed by a dot and more,
  \<open>write_to_string\<close> raises \<^verbatim>\<open>ValueError\<close>; it returns no text, so no line of that pair.
\<close>

theorem write_to_string_prefix_violation:
  assumes "(device_name, slots_of_device) \<in> set (allocations r)"
    and "(slot_name, per_device_alloc) \<in> set slots_of_device"
    and "\<not> (str_startswith slot_name (device_name @ ''.'') \<or> slot_name = device_name)"
  shows "write_to_string lib known_slot_types r = Inl ValueError"
  unfolding write_to_string_def using assms by (rule write_allocations_violation)

theorem write_to_string_prefix_violation_witness:
  "(''cuda'', [(''cuda.mem'', [(''0'', 1)]), (''cudax'', [])])
     \<in> set (allocations \<lparr>container_id = ''c'', slots = [],
          allocations = [(''cpu'', [(''cpu'', [(''0'', 2)])]),
                         (''cuda'', [(''cuda.mem'', [(''0'', 1)]), (''cudax'', [])])],
          scratch_disk_size = 0, mounts = []\<rparr>)
   \<and> (''cudax'', []) \<in> set [(''cuda.mem'', [(''0'', 1::int)]), (''cudax'', [])]
   \<and> \<not> (str_startswith ''cudax'' (''cuda'' @ ''.'') \<or> ''cudax'' = ''cuda'')
   \<and> write_to_string int_library Map.empty
        \<lparr>container_id = ''c'', slots = [],
         allocations = [(''cpu'', [(''cpu'', [(''0'', 2)])]),
                        (''cuda'', [(''cuda.mem'', [(''0'', 1)]), (''cudax'', [])])],
         scratch_disk_size = 0, mounts = []\<rparr> = Inl ValueError"
proof -
  let ?r = "\<lparr>container_id = ''c'', slots = [],
         allocations = [(''cpu'', [(''cpu'', [(''0'', 2::int)])]),
                        (''cuda'', [(''cuda.mem'', [(''0'', 1)]), (''cudax'', [])])],
         scratch_disk_size = 0, mounts = []\<rparr>"
  have a: "(''cuda'', [(''cuda.mem'', [(''0'', 1::int)]), (''cudax'', [])]) \<in> set (allocations ?r)"
    by simp
  have b: "(''cudax'', []) \<in> set [(''cuda.mem'', [(''0'', 1::int)]), (''cudax'', [])]"
    by simp
  have c: "\<not> (str_startswith ''cudax'' (''cuda'' @ ''.'') \<or> ''cudax'' = ''cuda'')"
    by (simp add: str_startswith_def)
  from write_to_string_prefix_violation [OF a b c, of int_library Map.empty] a b c
  show ?thesis by simp
qed

subsection \<open>Facts about dictionaries\<close>

lemma set_dict_set: "set (dict_set d k v) \<subseteq> insert (k, v) (set d)"
  unfolding dict_set_def by (induction d) auto

lemma keys_dict_set: "fst ` set (dict_set d k v) = insert k (fst ` set d)"
  unfolding dict_set_def by (simp add: dom_update)

lemma map_of_dict_set: "map_of (dict_set d k v) = (map_of d)(k \<mapsto> v)"
  unfolding dict_set_def by (simp add: update_conv')

lemma dict_set_Cons_other:
  "k \<noteq> k0 \<Longrightarrow> dict_set ((k0, v0) # d) k v = (k0, v0) # dict_set d k v"
  unfolding dict_set_def by simp

lemma dict_set_append_new:
  "k \<notin> fst ` set d \<Longrightarrow> dict_set d k v = d @ [(k, v)]"
  unfolding dict_set_def by (induction d) auto

subsection \<open>The keys of a text\<close>

lemma keys_read_lines:
  "fst ` set (read_lines ls kv) =
     fst ` set kv \<union> {line_key line | line. line \<in> set ls \<and> CHR ''='' \<in> set line}"
proof (induction ls arbitrary: kv)
  case Nil
  then show ?case by simp
next
  case (Cons l ls)
  show ?case
  proof (cases "CHR ''='' \<in> set l")
    case False
    then show ?thesis using Cons.IH [of kv] by auto
  next
    case True
    obtain k v where kv: "str_partition CHR ''='' (str_strip l) = (k, v)"
      by (cases "str_partition CHR ''='' (str_strip l)")
    then have k: "line_key l = k" by (simp add: line_key_def)
    have "fst ` set (read_lines (l # ls) kv) = fst ` set (read_lines ls (dict_set kv k v))"
      using True kv by simp
    also have "\<dots> = insert k (fst ` set kv)
        \<union> {line_key line | line. line \<in> set ls \<and> CHR ''='' \<in> set line}"
      by (simp add: Cons.IH keys_dict_set)
    also have "\<dots> = fst ` set kv
        \<union> {line_key line | line. line \<in> set (l # ls) \<and> CHR ''='' \<in> set line}"
      using True k by auto
    finally show ?thesis .
  qed
qed

lemma map_of_read_kvpairs_None:
  "map_of (read_kvpairs text) key = None \<longleftrightarrow> \<not> has_key text key"
proof -
  have "map_of (read_kvpairs text) key = None \<longleftrightarrow> key \<notin> fst ` set (read_kvpairs text)"
    by (simp add: map_of_eq_None_iff)
  also have "\<dots> \<longleftrightarrow> \<not> has_key text key"
    unfolding read_kvpairs_def keys_read_lines has_key_def by auto
  finally show ?thesis .
qed

subsection \<open>The mandatory keys\<close>

text \<open>
  C4.  A text has a key when one of its lines holds \<open>=\<close> and, stripped, has the key before
  the first \<open>=\<close>.  When the text lacks \<open>MOUNTS\<close>, \<open>SLOTS\<close> or \<open>SCRATCH_SIZE\<close>,
  \<open>read_from_string\<close> returns an error and no record.
\<close>

theorem read_from_string_mandatory_keys:
  assumes "\<not> has_key text ''MOUNTS'' \<or> \<not> has_key text ''SLOTS''
           \<or> \<not> has_key text ''SCRATCH_SIZE''"
  shows "\<exists>e. read_from_string lib known_slot_types text = Inl e"
proof -
  from assms have "map_of (read_kvpairs text) ''MOUNTS'' = None
      \<or> map_of (read_kvpairs text) ''SLOTS'' = None
      \<or> map_of (read_kvpairs text) ''SCRATCH_SIZE'' = None"
    by (simp add: map_of_read_kvpairs_None)
  then show ?thesis
    unfolding read_from_string_def read_from_string_log_def Let_def
    by (auto split: sum.splits option.splits prod.splits)
qed


theorem read_from_string_mandatory_keys_witness:
  "\<not> has_key ''CID=c\<newline>SCRATCH_SIZE=0\<newline>SLOTS={}\<newline>'' ''MOUNTS''
   \<and> (\<exists>e. read_from_string int_library Map.empty
              ''CID=c\<newline>SCRATCH_SIZE=0\<newline>SLOTS={}\<newline>'' = Inl e)
   \<and> read_from_string int_library Map.empty
         ''CID=c\<newline>SCRATCH_SIZE=0\<newline>SLOTS={}\<newline>'' = Inl (KeyError ''MOUNTS'')"
proof -
  let ?text = "''CID=c\<newline>SCRATCH_SIZE=0\<newline>SLOTS={}\<newline>''"
  have absent: "\<not> has_key ?text ''MOUNTS''"
    by (simp add: has_key_def line_key_def str_partition_def str_strip_def isspace_def)
  have kv: "read_kvpairs ?text = [(''CID'', ''c''), (''SCRATCH_SIZE'', ''0''), (''SLOTS'', ''{}'')]"
    by (simp add: read_kvpairs_def str_partition_def str_strip_def isspace_def dict_set_def)
  have val: "read_from_string int_library Map.empty ?text = Inl (KeyError ''MOUNTS'')"
    by (simp add: read_from_string_def read_from_string_log_def kv str_endswith_def)
  from read_from_string_mandatory_keys [of ?text int_library Map.empty] absent val
  show ?thesis by simp
qed

subsection \<open>Stripping a line\<close>

lemma dropWhile_append_last:
  "ys \<noteq> [] \<Longrightarrow> \<not> P (hd ys) \<Longrightarrow> dropWhile P (xs @ ys) = dropWhile P xs @ ys"
  by (induction xs) (auto simp: neq_Nil_conv)

lemma str_strip_prefix:
  assumes "a \<noteq> []" "\<not> isspace (hd a)" "\<not> isspace (last a)"
  shows "str_strip (a @ x) = a @ rev (dropWhile isspace (rev x))"
proof -
  have front: "dropWhile isspace (a @ x) = a @ x"
    using assms(1,2) by (cases a) auto
  have "dropWhile isspace (rev x @ rev a) = dropWhile isspace (rev x) @ rev a"
    by (rule dropWhile_append_last) (use assms in \<open>auto simp: hd_rev\<close>)
  then show ?thesis
    by (simp add: str_strip_def front)
qed

lemma str_split_line:
  "CHR 0x0A \<notin> set l \<Longrightarrow> str_split CHR 0x0A (l @ CHR 0x0A # t) = l # str_split CHR 0x0A t"
  by (rule str_split_append)

subsection \<open>The container id\<close>

lemma read_lines_Cons_other:
  "\<forall>line \<in> set ls. CHR ''='' \<in> set line \<longrightarrow> line_key line \<noteq> k0 \<Longrightarrow>
   read_lines ls ((k0, v0) # kv) = (k0, v0) # read_lines ls kv"
proof (induction ls arbitrary: kv)
  case Nil
  then show ?case by simp
next
  case (Cons l ls)
  show ?case
  proof (cases "CHR ''='' \<in> set l")
    case False
    with Cons show ?thesis by simp
  next
    case True
    obtain k v where kv: "str_partition CHR ''='' (str_strip l) = (k, v)"
      by (cases "str_partition CHR ''='' (str_strip l)")
    with True Cons.prems have "k \<noteq> k0" by (auto simp: line_key_def)
    then show ?thesis using True kv Cons by (simp add: dict_set_Cons_other)
  qed
qed

lemma read_kvpairs_CID_line:
  assumes "\<not> has_key text ''CID''" "CHR 0x0A \<notin> set cid"
  shows "read_kvpairs (''CID='' @ cid @ [CHR 0x0A] @ text)
         = (''CID'', rev (dropWhile isspace (rev cid))) # read_kvpairs text"
proof -
  have strip: "str_strip (''CID='' @ cid) = ''CID='' @ rev (dropWhile isspace (rev cid))"
    by (rule str_strip_prefix) (simp_all add: isspace_def)
  have split: "str_split CHR 0x0A ((''CID='' @ cid) @ CHR 0x0A # text)
      = (''CID='' @ cid) # str_split CHR 0x0A text"
    by (rule str_split_line) (use assms(2) in simp)
  have other: "\<forall>line \<in> set (str_split CHR 0x0A text).
      CHR ''='' \<in> set line \<longrightarrow> line_key line \<noteq> ''CID''"
    using assms(1) by (auto simp: has_key_def)
  have "read_kvpairs (''CID='' @ cid @ [CHR 0x0A] @ text)
      = read_lines (str_split CHR 0x0A text) [(''CID'', rev (dropWhile isspace (rev cid)))]"
    using split strip by (simp add: read_kvpairs_def str_partition_def dict_set_def)
  also have "\<dots> = (''CID'', rev (dropWhile isspace (rev cid))) # read_kvpairs text"
    unfolding read_kvpairs_def by (rule read_lines_Cons_other [OF other])
  finally show ?thesis .
qed

text \<open>
  C9.  For a text without the key \<open>CID\<close>: a record that \<open>read_from_string\<close> returns has
  the container id \<open>unknown\<close>; and the text parses whenever it parses with a \<open>CID\<close> line
  put in front, to the same record but for the container id, so the missing line alone
  never makes the parse fail.
\<close>

theorem read_from_string_without_CID:
  assumes "\<not> has_key text ''CID''"
  shows "(read_from_string lib known_slot_types text = Inr r \<longrightarrow> container_id r = ''unknown'')
    \<and> (CHR 0x0A \<notin> set cid
        \<and> read_from_string lib known_slot_types (''CID='' @ cid @ [CHR 0x0A] @ text) = Inr r'
       \<longrightarrow> read_from_string lib known_slot_types text = Inr (r'\<lparr>container_id := ''unknown''\<rparr>))"
proof (intro conjI impI)
  have none: "map_of (read_kvpairs text) ''CID'' = None"
    using assms by (simp add: map_of_read_kvpairs_None)
  {
    assume "read_from_string lib known_slot_types text = Inr r"
    then show "container_id r = ''unknown''"
      unfolding read_from_string_def read_from_string_log_def Let_def
      by (auto simp: none split: sum.splits option.splits prod.splits)
  next
    assume a: "CHR 0x0A \<notin> set cid
        \<and> read_from_string lib known_slot_types (''CID='' @ cid @ [CHR 0x0A] @ text) = Inr r'"
    then have kv: "read_kvpairs (''CID='' @ cid @ [CHR 0x0A] @ text)
         = (''CID'', rev (dropWhile isspace (rev cid))) # read_kvpairs text"
      by (intro read_kvpairs_CID_line assms) simp
    have skip: "\<not> str_endswith ''CID'' ''_SHARES''"
      by (simp add: str_endswith_def)
    from a have "read_from_string lib known_slot_types (''CID='' @ cid @ [CHR 0x0A] @ text) = Inr r'"
      by simp
    then show "read_from_string lib known_slot_types text = Inr (r'\<lparr>container_id := ''unknown''\<rparr>)"
      unfolding read_from_string_def read_from_string_log_def Let_def kv
      by (auto simp: none skip split: sum.splits option.splits prod.splits)
  }
qed

theorem read_from_string_without_CID_witness:
  "\<not> has_key ''SCRATCH_SIZE=3k\<newline>MOUNTS=\<newline>SLOTS={}\<newline>'' ''CID''
   \<and> read_from_string int_library Map.empty ''SCRATCH_SIZE=3k\<newline>MOUNTS=\<newline>SLOTS={}\<newline>''
       = Inr \<lparr>container_id = ''unknown'', slots = [], allocations = [],
              scratch_disk_size = 3072, mounts = []\<rparr>
   \<and> container_id \<lparr>container_id = ''unknown'', slots = [], allocations = [],
              scratch_disk_size = 3072, mounts = []\<rparr> = ''unknown''"
proof -
  let ?text = "''SCRATCH_SIZE=3k\<newline>MOUNTS=\<newline>SLOTS={}\<newline>''"
  let ?r = "\<lparr>container_id = ''unknown'', slots = [], allocations = [],
              scratch_disk_size = 3072, mounts = []\<rparr> :: int KernelResourceSpec"
  have absent: "\<not> has_key ?text ''CID''"
    by (simp add: has_key_def line_key_def str_partition_def str_strip_def isspace_def)
  have kv: "read_kvpairs ?text = [(''SCRATCH_SIZE'', ''3k''), (''MOUNTS'', ''''), (''SLOTS'', ''{}'')]"
    by (simp add: read_kvpairs_def str_partition_def str_strip_def isspace_def dict_set_def)
  have size: "units_BinarySize_from_str ''3k'' = Inr 3072"
    by (simp add: units_BinarySize_from_str_def nat_of_str_def isdigit_def binary_unit_def)
  have val: "read_from_string int_library Map.empty ?text = Inr ?r"
    by (simp add: read_from_string_def read_from_string_log_def kv str_endswith_def
        int_library_def size plain_json_loads_def)
  from read_from_string_without_CID [OF absent, of int_library Map.empty ?r] val absent
  show ?thesis by simp
qed

subsection \<open>Case conversion\<close>

lemma char_lower_not_upper: "\<not> isupper (char_lower c)"
proof (cases "isupper c")
  case True
  define n :: nat where "n = of_char c"
  from True have n: "(65 \<le> n \<and> n \<le> 90) \<or> (192 \<le> n \<and> n \<le> 214) \<or> (216 \<le> n \<and> n \<le> 222)"
    by (simp add: isupper_def n_def)
  then have "n + 32 < 256" by linarith
  then have val: "(of_char (char_of (n + 32)) :: nat) = n + 32" by simp
  have "char_lower c = char_of (n + 32)" using True by (simp add: char_lower_def n_def)
  moreover have "\<not> isupper (char_of (n + 32))"
    unfolding isupper_def val using n by linarith
  ultimately show ?thesis by simp
next
  case False
  then show ?thesis by (simp add: char_lower_def)
qed

lemma str_lower_not_upper: "c \<in> set (str_lower s) \<Longrightarrow> \<not> isupper c"
  by (auto simp: str_lower_def char_lower_not_upper)

lemma char_lower_id: "\<not> isupper c \<Longrightarrow> char_lower c = c"
  by (simp add: char_lower_def)

text \<open>A character of the upper case of \<open>c\<close> is \<open>c\<close> itself or an upper-case letter.\<close>

lemma char_upper_cases:
  assumes "x \<in> set (char_upper c)"
  shows "x = c \<or> isupper x"
proof -
  define n :: nat where "n = of_char c"
  show ?thesis
  proof (cases "(97 \<le> n \<and> n \<le> 122) \<or> (224 \<le> n \<and> n \<le> 246) \<or> (248 \<le> n \<and> n \<le> 254)")
    case True
    then have up: "char_upper c = [char_of (n - 32)]"
      by (simp add: char_upper_def n_def Let_def)
    have "n - 32 < 256" using True by linarith
    then have val: "(of_char (char_of (n - 32)) :: nat) = n - 32" by simp
    have "isupper (char_of (n - 32))"
      unfolding isupper_def val using True by linarith
    with assms up show ?thesis by simp
  next
    case False
    show ?thesis
    proof (cases "n = 223")
      case True
      with False have "char_upper c = ''SS''" by (simp add: char_upper_def n_def Let_def)
      with assms have "x = CHR ''S''" by simp
      then show ?thesis by (simp add: isupper_def)
    next
      case sharp: False
      with False have "char_upper c = [c]" by (auto simp: char_upper_def n_def Let_def)
      with assms show ?thesis by simp
    qed
  qed
qed

lemma char_upper_not_Nil: "char_upper c \<noteq> []"
  by (simp add: char_upper_def Let_def)

text \<open>Lower case undoes upper case, but for the sharp s.\<close>

lemma char_lower_upper:
  assumes "c \<noteq> CHR 0xDF"
  shows "str_lower (char_upper c) = [char_lower c]"
proof -
  define n :: nat where "n = of_char c"
  from assms have "of_char c \<noteq> (of_char (CHR 0xDF) :: nat)"
    by (metis char_of_char)
  then have sharp: "n \<noteq> 223" by (simp add: n_def)
  show ?thesis
  proof (cases "(97 \<le> n \<and> n \<le> 122) \<or> (224 \<le> n \<and> n \<le> 246) \<or> (248 \<le> n \<and> n \<le> 254)")
    case True
    then have up: "char_upper c = [char_of (n - 32)]"
      by (simp add: char_upper_def n_def Let_def)
    have "n - 32 < 256" using True by linarith
    then have val: "(of_char (char_of (n - 32)) :: nat) = n - 32" by simp
    have upper: "isupper (char_of (n - 32))"
      unfolding isupper_def val using True by linarith
    have "char_lower (char_of (n - 32)) = char_of ((of_char (char_of (n - 32)) :: nat) + 32)"
      using upper by (simp only: char_lower_def if_True)
    also have "\<dots> = char_of (n - 32 + 32)" by (simp only: val)
    also have "n - 32 + 32 = n" using True by linarith
    also have "char_of n = c" by (simp add: n_def)
    finally have "char_lower (char_of (n - 32)) = c" .
    moreover have "\<not> isupper c"
      unfolding isupper_def using True by (simp add: n_def) linarith
    ultimately show ?thesis by (simp add: up str_lower_def char_lower_id)
  next
    case False
    with sharp have "char_upper c = [c]" by (auto simp: char_upper_def n_def Let_def)
    then show ?thesis by (simp add: str_lower_def)
  qed
qed

lemma str_lower_append: "str_lower (a @ b) = str_lower a @ str_lower b"
  by (simp add: str_lower_def)

lemma str_lower_upper: "CHR 0xDF \<notin> set s \<Longrightarrow> str_lower (str_upper s) = str_lower s"
proof (induction s)
  case Nil
  then show ?case by (simp add: str_lower_def str_upper_def)
next
  case (Cons c s)
  then have "str_lower (char_upper c) = [char_lower c]" by (intro char_lower_upper) auto
  moreover have "str_upper (c # s) = char_upper c @ str_upper s" by (simp add: str_upper_def)
  moreover have "str_lower (c # s) = char_lower c # str_lower s" by (simp add: str_lower_def)
  ultimately show ?case using Cons by (simp add: str_lower_append)
qed

subsection \<open>Slot names and device names of a parsed record\<close>

lemma allocations_set_entries:
  assumes "(d, sl) \<in> set (allocations_set allocs device_name slot_name v)" "(s, p) \<in> set sl"
  shows "(d = device_name \<and> s = slot_name)
       \<or> (\<exists>sl'. (d, sl') \<in> set allocs \<and> (s, p) \<in> set sl')"
proof -
  let ?inner = "case map_of allocs device_name of None \<Rightarrow> [] | Some inner \<Rightarrow> inner"
  from assms(1) have "(d, sl) = (device_name, dict_set ?inner slot_name v) \<or> (d, sl) \<in> set allocs"
    unfolding allocations_set_def using set_dict_set by fastforce
  then show ?thesis
  proof
    assume "(d, sl) \<in> set allocs"
    with assms(2) show ?thesis by blast
  next
    assume eq: "(d, sl) = (device_name, dict_set ?inner slot_name v)"
    with assms(2) have "(s, p) = (slot_name, v) \<or> (s, p) \<in> set ?inner"
      using set_dict_set by fastforce
    then show ?thesis
    proof
      assume "(s, p) = (slot_name, v)"
      with eq show ?thesis by simp
    next
      assume in_inner: "(s, p) \<in> set ?inner"
      then obtain inner where "map_of allocs device_name = Some inner" "(s, p) \<in> set inner"
        by (cases "map_of allocs device_name") auto
      then have "(device_name, inner) \<in> set allocs \<and> (s, p) \<in> set inner"
        by (auto dest: map_of_SomeD)
      with eq show ?thesis by auto
    qed
  qed
qed

lemma read_allocations_slot_from_keys:
  assumes "read_allocations lib kst kvs (allocs, w) = Inr (allocs', w')"
    and "\<forall>(d, sl) \<in> set allocs. \<forall>(s, p) \<in> set sl. slot_from_keys K d s"
    and "fst ` set kvs \<subseteq> K"
  shows "\<forall>(d, sl) \<in> set allocs'. \<forall>(s, p) \<in> set sl. slot_from_keys K d s"
  using assms
proof (induction kvs arbitrary: allocs w)
  case Nil
  then show ?case by simp
next
  case (Cons kv kvs)
  obtain key val where kv: "kv = (key, val)" by (cases kv)
  show ?case
  proof (cases "str_endswith key ''_SHARES''")
    case False
    with Cons.prems kv have "read_allocations lib kst kvs (allocs, w) = Inr (allocs', w')"
      by simp
    from Cons.IH [OF this Cons.prems(2)] Cons.prems(3) show ?thesis by simp
  next
    case True
    let ?slot = "str_lower (take (length key - 7) key)"
    let ?dev = "hd (str_split CHR ''.'' ?slot)"
    from Cons.prems(1) kv True obtain pda w1 where
      ent: "read_entries lib kst ?slot (str_split CHR '','' val) ([], w) = Inr (pda, w1)"
      and rest: "read_allocations lib kst kvs (allocations_set allocs ?dev ?slot pda, w1)
          = Inr (allocs', w')"
      by (auto simp: Let_def split: sum.splits prod.splits)
    have key: "key \<in> K" using Cons.prems(3) kv by simp
    have new: "slot_from_keys K ?dev ?slot"
      unfolding slot_from_keys_def using key True by blast
    have inv: "\<forall>(d, sl) \<in> set (allocations_set allocs ?dev ?slot pda).
        \<forall>(s, p) \<in> set sl. slot_from_keys K d s"
    proof (clarify)
      fix d sl s p
      assume "(d, sl) \<in> set (allocations_set allocs ?dev ?slot pda)" "(s, p) \<in> set sl"
      from allocations_set_entries [OF this] new Cons.prems(2)
      show "slot_from_keys K d s" by fastforce
    qed
    from Cons.IH [OF rest inv] Cons.prems(3) show ?thesis by simp
  qed
qed

lemma keys_read_kvpairs: "fst ` set (read_kvpairs t) = {key. has_key t key}"
  unfolding read_kvpairs_def keys_read_lines has_key_def by auto

lemma read_from_string_log_allocations:
  assumes "read_from_string_log lib kst t = Inr (r, w)"
  shows "read_allocations lib kst (read_kvpairs t) ([], []) = Inr (allocations r, w)"
proof (cases "read_allocations lib kst (read_kvpairs t) ([], [])")
  case (Inl e)
  with assms show ?thesis
    unfolding read_from_string_log_def Let_def by simp
next
  case (Inr p)
  obtain allocs w0 where p: "p = (allocs, w0)" by (cases p)
  note ra = Inr [unfolded p]
  show ?thesis
  proof (cases "map_of (read_kvpairs t) ''MOUNTS''")
    case None
    with assms ra show ?thesis unfolding read_from_string_log_def Let_def by simp
  next
    case mo: (Some mounts_val)
    show ?thesis
    proof (cases "read_mounts (str_split CHR '','' mounts_val)")
      case (Inl e)
      with assms ra mo show ?thesis unfolding read_from_string_log_def Let_def by simp
    next
      case ms: (Inr ms)
      show ?thesis
      proof (cases "map_of (read_kvpairs t) ''SCRATCH_SIZE''")
        case None
        with assms ra mo ms show ?thesis unfolding read_from_string_log_def Let_def by simp
      next
        case sz: (Some size_val)
        show ?thesis
        proof (cases "BinarySize_finite_from_str lib size_val")
          case (Inl e)
          with assms ra mo ms sz show ?thesis
            unfolding read_from_string_log_def Let_def by simp
        next
          case sc: (Inr scratch)
          show ?thesis
          proof (cases "map_of (read_kvpairs t) ''SLOTS''")
            case None
            with assms ra mo ms sz sc show ?thesis
              unfolding read_from_string_log_def Let_def by simp
          next
            case sl: (Some slots_val)
            show ?thesis
            proof (cases "ResourceSlot_of_json lib slots_val")
              case (Inl e)
              with assms ra mo ms sz sc sl show ?thesis
                unfolding read_from_string_log_def Let_def by simp
            next
              case (Inr sl')
              with assms ra mo ms sz sc sl have "allocations r = allocs \<and> w = w0"
                unfolding read_from_string_log_def Let_def by auto
              with ra show ?thesis by simp
            qed
          qed
        qed
      qed
    qed
  qed
qed

lemma read_from_string_allocations:
  assumes "read_from_string lib kst t = Inr r"
  shows "\<exists>w. read_allocations lib kst (read_kvpairs t) ([], []) = Inr (allocations r, w)"
proof (cases "read_from_string_log lib kst t")
  case (Inl e)
  with assms show ?thesis by (simp add: read_from_string_def)
next
  case (Inr p)
  obtain r0 w where p: "p = (r0, w)" by (cases p)
  with assms Inr have "r0 = r" by (simp add: read_from_string_def)
  with Inr p read_from_string_log_allocations [of lib kst t r w] show ?thesis by auto
qed

subsection \<open>Splitting what was joined\<close>

lemma str_join_Cons:
  "xs \<noteq> [] \<Longrightarrow> str_join sep (x # xs) = x @ sep @ str_join sep xs"
  by (cases xs) auto

lemma str_split_join:
  assumes "\<forall>x \<in> set xs. c \<notin> set x" "xs \<noteq> []"
  shows "str_split c (str_join [c] xs) = xs"
  using assms
proof (induction xs)
  case Nil
  then show ?case by simp
next
  case (Cons x xs)
  show ?case
  proof (cases "xs = []")
    case True
    with Cons.prems show ?thesis by (simp add: str_split_no_sep)
  next
    case False
    with Cons have IH: "str_split c (str_join [c] xs) = xs" by simp
    from Cons.prems have "c \<notin> set x" by simp
    then have "str_split c (x @ c # str_join [c] xs) = x # str_split c (str_join [c] xs)"
      by (rule str_split_append)
    with False IH show ?thesis by (simp add: str_join_Cons)
  qed
qed

lemma set_str_join:
  "set (str_join sep xs) \<subseteq> set sep \<union> \<Union> (set ` set xs)"
  by (induction sep xs rule: str_join.induct) auto

lemma str_join_eq_Nil: "str_join sep xs = [] \<Longrightarrow> \<forall>x \<in> set xs. x = []"
  by (induction sep xs rule: str_join.induct) auto

lemma str_join_not_Nil: "xs \<noteq> [] \<Longrightarrow> last xs \<noteq> [] \<Longrightarrow> str_join sep xs \<noteq> []"
  by (induction sep xs rule: str_join.induct) auto

lemma last_str_join:
  "xs \<noteq> [] \<Longrightarrow> last xs \<noteq> [] \<Longrightarrow> last (str_join sep xs) = last (last xs)"
proof (induction sep xs rule: str_join.induct)
  case (3 sep x y ys)
  then have "str_join sep (y # ys) \<noteq> []" by (intro str_join_not_Nil) auto
  with 3 show ?case by simp
qed auto

text \<open>The lines of a text in which every line ends with a line feed.\<close>

lemma str_split_lines:
  "\<forall>l \<in> set ls. CHR 0x0A \<notin> set l \<Longrightarrow>
   str_split CHR 0x0A (concat (map (\<lambda>l. l @ [CHR 0x0A]) ls)) = ls @ [[]]"
proof (induction ls)
  case Nil
  then show ?case by simp
next
  case (Cons l ls)
  then have "str_split CHR 0x0A (l @ CHR 0x0A # concat (map (\<lambda>l. l @ [CHR 0x0A]) ls))
      = l # str_split CHR 0x0A (concat (map (\<lambda>l. l @ [CHR 0x0A]) ls))"
    by (intro str_split_append) simp
  with Cons show ?case by simp
qed

subsection \<open>Lines that strip to themselves\<close>

lemma str_strip_line:
  assumes "k = [] \<or> \<not> isspace (hd k)" "v = [] \<or> \<not> isspace (last v)"
  shows "str_strip (k @ CHR ''='' # v) = k @ CHR ''='' # v"
proof -
  have eq: "\<not> isspace CHR ''=''" by (simp add: isspace_def)
  have "str_strip ((k @ ''='') @ v) = (k @ ''='') @ rev (dropWhile isspace (rev v))"
    by (rule str_strip_prefix) (use assms(1) eq in \<open>auto simp: hd_append\<close>)
  moreover have "dropWhile isspace (rev v) = rev v"
    using assms(2) by (cases v rule: rev_cases) auto
  ultimately show ?thesis by simp
qed

lemma str_partition_line:
  "CHR ''='' \<notin> set k \<Longrightarrow> str_partition CHR ''='' (k @ CHR ''='' # v) = (k, v)"
  by (induction k) (auto simp: str_partition_def)

lemma read_lines_kv:
  assumes "\<forall>kv \<in> set kvs. kv_ok kv" "distinct (map fst (acc @ kvs))"
  shows "read_lines (map kv_line kvs @ [[]]) acc = acc @ kvs"
  using assms
proof (induction kvs arbitrary: acc)
  case Nil
  then show ?case by simp
next
  case (Cons kv kvs)
  obtain k v where kv: "kv = (k, v)" by (cases kv)
  from Cons.prems(1) kv have ok: "CHR ''='' \<notin> set k" "k = [] \<or> \<not> isspace (hd k)"
      "v = [] \<or> \<not> isspace (last v)"
    by (auto simp: kv_ok_def line_value_ok_def)
  have line: "str_partition CHR ''='' (str_strip (kv_line kv)) = (k, v)"
    using ok by (simp add: kv kv_line_def str_strip_line str_partition_line)
  have new: "k \<notin> fst ` set acc" using Cons.prems(2) kv by auto
  have "read_lines (map kv_line (kv # kvs) @ [[]]) acc
      = read_lines (map kv_line kvs @ [[]]) (dict_set acc k v)"
    using line by (simp add: kv_line_def kv)
  also have "dict_set acc k v = acc @ [(k, v)]"
    using new by (rule dict_set_append_new)
  also have "read_lines (map kv_line kvs @ [[]]) (acc @ [(k, v)]) = (acc @ [(k, v)]) @ kvs"
    using Cons.prems kv by (intro Cons.IH) auto
  finally show ?case by (simp add: kv)
qed

lemma read_kvpairs_lines:
  assumes "\<forall>kv \<in> set kvs. kv_ok kv" "distinct (map fst kvs)"
  shows "read_kvpairs (concat (map (\<lambda>l. l @ [CHR 0x0A]) (map kv_line kvs))) = kvs"
proof -
  have "\<forall>l \<in> set (map kv_line kvs). CHR 0x0A \<notin> set l"
    using assms(1) by (auto simp: kv_ok_def kv_line_def line_value_ok_def)
  then have "str_split CHR 0x0A (concat (map (\<lambda>l. l @ [CHR 0x0A]) (map kv_line kvs)))
      = map kv_line kvs @ [[]]"
    by (rule str_split_lines)
  then show ?thesis
    unfolding read_kvpairs_def using read_lines_kv [OF assms(1), of "[]"] assms(2) by simp
qed

subsection \<open>Paths and mounts through their string form\<close>

lemma hd_str_join:
  "xs \<noteq> [] \<Longrightarrow> hd xs \<noteq> [] \<Longrightarrow> str_join sep xs \<noteq> [] \<and> hd (str_join sep xs) = hd (hd xs)"
  by (induction sep xs rule: str_join.induct) auto

lemma filter_parts_id:
  "\<forall>x \<in> set ps. x \<noteq> [] \<and> x \<noteq> ''.'' \<Longrightarrow> filter (\<lambda>p. p \<noteq> [] \<and> p \<noteq> ''.'') ps = ps"
  by (induction ps) auto

lemma str_split_parts:
  assumes "\<forall>x \<in> set ps. x \<noteq> [] \<and> x \<noteq> ''.'' \<and> CHR ''/'' \<notin> set x"
  shows "filter (\<lambda>p. p \<noteq> [] \<and> p \<noteq> ''.'') (str_split CHR ''/'' (str_join ''/'' ps)) = ps"
proof (cases "ps = []")
  case True
  then show ?thesis by simp
next
  case False
  with assms have "str_split CHR ''/'' (str_join [CHR ''/''] ps) = ps"
    by (intro str_split_join) auto
  with assms show ?thesis by (simp add: filter_parts_id)
qed

lemma body_no_slash:
  assumes "\<forall>x \<in> set ps. x \<noteq> [] \<and> x \<noteq> ''.'' \<and> CHR ''/'' \<notin> set x"
  shows "str_join ''/'' ps = [] \<or> hd (str_join ''/'' ps) \<noteq> CHR ''/''"
proof (cases "ps = []")
  case True
  then show ?thesis by simp
next
  case False
  with assms have "hd ps \<noteq> [] \<and> CHR ''/'' \<notin> set (hd ps)"
    by (cases ps) auto
  moreover from this False have "hd (str_join ''/'' ps) = hd (hd ps)"
    using hd_str_join by blast
  ultimately show ?thesis
    by (metis hd_in_set)
qed

lemma Path_of_str_path_str:
  assumes "path_normal p"
  shows "Path_of_str (path_str p) = p"
proof -
  obtain rt ps where p: "p = Path rt ps" by (cases p)
  from assms p have ps: "\<forall>x \<in> set ps. x \<noteq> [] \<and> x \<noteq> ''.'' \<and> CHR ''/'' \<notin> set x"
    and rt: "rt = [] \<or> rt = ''/'' \<or> rt = ''//''"
    by (auto simp: path_normal_def)
  let ?body = "str_join ''/'' ps"
  have parts: "filter (\<lambda>p. p \<noteq> [] \<and> p \<noteq> ''.'') (str_split CHR ''/'' ?body) = ps"
    using ps by (rule str_split_parts)
  have body: "?body = [] \<or> hd ?body \<noteq> CHR ''/''"
    using ps by (rule body_no_slash)
  from rt show ?thesis
  proof (elim disjE)
    assume r: "rt = []"
    show ?thesis
    proof (cases "ps = []")
      case True
      with r p show ?thesis by (simp add: path_str_def Path_of_str_def)
    next
      case False
      with ps have ne: "?body \<noteq> []"
        using hd_str_join [of ps "''/''"] by (cases ps) auto
      with body obtain c cs where b: "?body = c # cs" "c \<noteq> CHR ''/''"
        by (cases ?body) auto
      have "path_str p = ?body" using r p False by (simp add: path_str_def)
      moreover have "Path_of_str ?body = Path [] ps"
        unfolding Path_of_str_def parts using b by simp
      ultimately show ?thesis using r p by simp
    qed
  next
    assume r: "rt = ''/''"
    have str: "path_str p = CHR ''/'' # ?body" using r p by (simp add: path_str_def)
    have "take 2 (CHR ''/'' # ?body) \<noteq> ''//''"
      using body by (cases ?body) auto
    then have "Path_of_str (CHR ''/'' # ?body) = Path ''/'' ps"
      unfolding Path_of_str_def using parts by simp
    with str r p show ?thesis by simp
  next
    assume r: "rt = ''//''"
    have str: "path_str p = CHR ''/'' # CHR ''/'' # ?body" using r p by (simp add: path_str_def)
    have "take 3 (CHR ''/'' # CHR ''/'' # ?body) \<noteq> ''///''"
      using body by (cases ?body) auto
    then have "Path_of_str (CHR ''/'' # CHR ''/'' # ?body) = Path ''//'' ps"
      unfolding Path_of_str_def using parts by simp
    with str r p show ?thesis by simp
  qed
qed

lemma path_str_plain:
  assumes "path_normal p" "path_plain p"
  shows "CHR '':'' \<notin> set (path_str p) \<and> CHR '','' \<notin> set (path_str p)
       \<and> CHR 0x0A \<notin> set (path_str p)"
proof -
  have "set (path_str p) \<subseteq> {CHR ''.'', CHR ''/''} \<union> \<Union> (set ` set (parts p))"
    using assms(1) set_str_join [of "''/''" "parts p"]
    by (auto simp: path_str_def path_normal_def)
  with assms(2) show ?thesis
    by (auto simp: path_plain_def)
qed

lemma MountPermission_of_permission_value:
  "MountPermission_of_value (permission_value perm) = Inr perm"
  by (cases perm) (simp_all add: MountPermission_of_value_def)

lemma permission_value_plain:
  "CHR '':'' \<notin> set (permission_value perm) \<and> CHR '','' \<notin> set (permission_value perm)
   \<and> CHR 0x0A \<notin> set (permission_value perm) \<and> permission_value perm \<noteq> []
   \<and> \<not> isspace (last (permission_value perm))"
  by (cases perm) (simp_all add: isspace_def)

lemma str_split_three:
  assumes "c \<notin> set x" "c \<notin> set y" "c \<notin> set z"
  shows "str_split c (x @ [c] @ y @ [c] @ z) = [x, y, z]"
proof -
  have "str_split c (x @ c # (y @ c # z)) = x # str_split c (y @ c # z)"
    using assms(1) by (rule str_split_append)
  also have "str_split c (y @ c # z) = y # str_split c z"
    using assms(2) by (rule str_split_append)
  also have "str_split c z = [z]"
    using assms(3) by (rule str_split_no_sep)
  finally show ?thesis by simp
qed

lemma Mount_from_str_Mount_str:
  assumes "mount_ok m"
  shows "Mount_from_str (Mount_str m) = Inr m"
proof -
  from assms have tgt: "path_normal (target m)" "path_plain (target m)" "is_absolute (target m)"
    and opts: "opts m = None"
    by (auto simp: mount_ok_def)
  have tgt_back: "Path_of_str (path_str (target m)) = target m"
    using tgt(1) by (rule Path_of_str_path_str)
  have tgt_plain: "CHR '':'' \<notin> set (path_str (target m))"
    using path_str_plain [OF tgt(1,2)] by simp
  have perm_plain: "CHR '':'' \<notin> set (permission_value (permission m))"
    using permission_value_plain by simp
  show ?thesis
  proof (cases "source m")
    case Source_None
    with assms show ?thesis by (simp add: mount_ok_def)
  next
    case (Source_Path p)
    with assms have p: "type m = BIND" "path_normal p" "path_plain p" "is_absolute p"
      by (auto simp: mount_ok_def)
    have src_plain: "CHR '':'' \<notin> set (path_str p)"
      using path_str_plain [OF p(2,3)] by simp
    have "str_split CHR '':'' (path_str p @ '':'' @ path_str (target m) @ '':''
        @ permission_value (permission m))
      = [path_str p, path_str (target m), permission_value (permission m)]"
      using src_plain tgt_plain perm_plain by (rule str_split_three)
    then have "Mount_from_str (Mount_str m) =
        Inr \<lparr>type = BIND, source = Source_Path p, target = target m,
             permission = permission m, opts = None\<rparr>"
      unfolding Mount_from_str_def Mount_str_def Source_Path source_str.simps
      by (simp add: Path_of_str_path_str p tgt tgt_back MountPermission_of_permission_value)
    with p(1) Source_Path opts show ?thesis by simp
  next
    case (Source_str s)
    with assms have s: "type m = VOLUME" "path_normal (Path [] [s])" "path_plain (Path [] [s])"
      by (auto simp: mount_ok_def)
    have str: "path_str (Path [] [s]) = s"
      by (simp add: path_str_def)
    have again: "Path_of_str s = Path [] [s]"
      using Path_of_str_path_str [OF s(2)] str by simp
    have src_plain: "CHR '':'' \<notin> set s"
      using s(3) by (simp add: path_plain_def)
    have "str_split CHR '':'' (s @ '':'' @ path_str (target m) @ '':''
        @ permission_value (permission m))
      = [s, path_str (target m), permission_value (permission m)]"
      using src_plain tgt_plain perm_plain by (rule str_split_three)
    then have "Mount_from_str (Mount_str m) =
        Inr \<lparr>type = VOLUME, source = Source_str s, target = target m,
             permission = permission m, opts = None\<rparr>"
      unfolding Mount_from_str_def Mount_str_def Source_str source_str.simps
      using tgt(3)
      by (simp add: again str tgt_back MountPermission_of_permission_value is_absolute_def
          Let_def)
    with s(1) Source_str opts show ?thesis by simp
  qed
qed

lemma Mount_str_plain:
  assumes "mount_ok m"
  shows "CHR '','' \<notin> set (Mount_str m) \<and> CHR 0x0A \<notin> set (Mount_str m)
       \<and> Mount_str m \<noteq> [] \<and> \<not> isspace (last (Mount_str m))"
proof -
  from assms have tgt: "path_normal (target m)" "path_plain (target m)"
    by (auto simp: mount_ok_def)
  have src: "CHR '','' \<notin> set (source_str (source m)) \<and> CHR 0x0A \<notin> set (source_str (source m))"
  proof (cases "source m")
    case Source_None
    with assms show ?thesis by (simp add: mount_ok_def)
  next
    case (Source_Path p)
    with assms have "path_normal p" "path_plain p" by (auto simp: mount_ok_def)
    from path_str_plain [OF this] Source_Path show ?thesis by simp
  next
    case (Source_str s)
    with assms have "path_plain (Path [] [s])" by (auto simp: mount_ok_def)
    with Source_str show ?thesis by (simp add: path_plain_def)
  qed
  from src path_str_plain [OF tgt] permission_value_plain [of "permission m"]
  show ?thesis by (simp add: Mount_str_def)
qed

lemma read_mounts_map:
  assumes "\<forall>m \<in> set ms. mount_ok m"
  shows "read_mounts (map Mount_str ms) = Inr ms"
  using assms
proof (induction ms)
  case Nil
  then show ?case by simp
next
  case (Cons m ms)
  then have "Mount_from_str (Mount_str m) = Inr m" "Mount_str m \<noteq> []"
    using Mount_from_str_Mount_str Mount_str_plain by auto
  with Cons show ?case by simp
qed

lemma read_mounts_line:
  assumes "\<forall>m \<in> set ms. mount_ok m"
  shows "read_mounts (str_split CHR '','' (str_join '','' (map Mount_str ms))) = Inr ms"
proof (cases "ms = []")
  case True
  then show ?thesis by simp
next
  case False
  have "str_split CHR '','' (str_join [CHR '',''] (map Mount_str ms)) = map Mount_str ms"
    using assms False Mount_str_plain by (intro str_split_join) auto
  with assms show ?thesis by (simp add: read_mounts_map)
qed

lemma mounts_line_value_ok:
  assumes "\<forall>m \<in> set ms. mount_ok m"
  shows "line_value_ok (str_join '','' (map Mount_str ms))"
proof (cases "ms = []")
  case True
  then show ?thesis by (simp add: line_value_ok_def)
next
  case False
  have nl: "CHR 0x0A \<notin> set (str_join '','' (map Mount_str ms))"
    using set_str_join [of "'',''" "map Mount_str ms"] assms Mount_str_plain by fastforce
  have lastm: "mount_ok (last ms)" using assms False by simp
  have "last (str_join '','' (map Mount_str ms)) = last (last (map Mount_str ms))"
    using False Mount_str_plain [OF lastm] by (intro last_str_join) (auto simp: last_map)
  with Mount_str_plain [OF lastm] False have "\<not> isspace (last (str_join '','' (map Mount_str ms)))"
    by (simp add: last_map)
  with nl show ?thesis by (simp add: line_value_ok_def)
qed

subsection \<open>The text that write\_to\_string makes\<close>

lemma text_of_kvs_append: "text_of_kvs (xs @ ys) = text_of_kvs xs @ text_of_kvs ys"
  by (simp add: text_of_kvs_def)

lemma write_piece_alloc:
  "write_piece lib kst slot_name item = fst item @ '':'' @ write_alloc lib kst slot_name (snd item)"
  by (simp add: write_piece_def write_alloc_def)

lemma write_slots_text:
  assumes "\<forall>slot \<in> set sl. fst slot = dev \<or> str_startswith (fst slot) (dev @ ''.'')"
  shows "write_slots lib kst dev sl acc
       = Inr (acc @ text_of_kvs (map (\<lambda>slot. (slot_key (fst slot), slot_val lib kst slot)) sl))"
  using assms
proof (induction sl arbitrary: acc)
  case Nil
  then show ?case by (simp add: text_of_kvs_def)
next
  case (Cons x sl)
  obtain s p where x: "x = (s, p)" by (cases x)
  from Cons.prems x have ok: "str_startswith s (dev @ ''.'') \<or> s = dev" by auto
  have "write_slots lib kst dev (x # sl) acc
      = write_slots lib kst dev sl
          (acc @ str_upper s @ ''_SHARES='' @ str_join '','' (map (write_piece lib kst s) p)
             @ [CHR 0x0A])"
    using ok by (simp add: x Let_def)
  also have "\<dots> = Inr ((acc @ str_upper s @ ''_SHARES=''
        @ str_join '','' (map (write_piece lib kst s) p) @ [CHR 0x0A])
        @ text_of_kvs (map (\<lambda>slot. (slot_key (fst slot), slot_val lib kst slot)) sl))"
    using Cons.prems by (intro Cons.IH) simp
  finally show ?case
    by (simp add: x text_of_kvs_def kv_line_def slot_key_def slot_val_def)
qed

lemma write_allocations_text:
  assumes "\<forall>device \<in> set allocs. \<forall>slot \<in> set (snd device).
      fst slot = fst device \<or> str_startswith (fst slot) (fst device @ ''.'')"
  shows "write_allocations lib kst allocs acc = Inr (acc @ text_of_kvs (alloc_kvs lib kst allocs))"
  using assms
proof (induction allocs arbitrary: acc)
  case Nil
  then show ?case by (simp add: text_of_kvs_def alloc_kvs_def)
next
  case (Cons x allocs)
  obtain d sl where x: "x = (d, sl)" by (cases x)
  let ?kvs = "map (\<lambda>slot. (slot_key (fst slot), slot_val lib kst slot)) sl"
  have "write_slots lib kst d sl acc = Inr (acc @ text_of_kvs ?kvs)"
    using Cons.prems x by (intro write_slots_text) auto
  moreover have "write_allocations lib kst allocs (acc @ text_of_kvs ?kvs)
      = Inr ((acc @ text_of_kvs ?kvs) @ text_of_kvs (alloc_kvs lib kst allocs))"
    using Cons.prems by (intro Cons.IH) simp
  ultimately show ?case
    by (simp add: x alloc_kvs_def text_of_kvs_append)
qed

lemma write_header_text: "write_header lib r = text_of_kvs (header_kvs lib r)"
  by (simp add: write_header_def text_of_kvs_def header_kvs_def kv_line_def)

lemma write_to_string_text:
  assumes "\<forall>device \<in> set (allocations r). device_shape_ok device"
  shows "write_to_string lib kst r
       = Inr (text_of_kvs (header_kvs lib r @ alloc_kvs lib kst (allocations r)))"
proof -
  have "\<forall>device \<in> set (allocations r). \<forall>slot \<in> set (snd device).
      fst slot = fst device \<or> str_startswith (fst slot) (fst device @ ''.'')"
    using assms by (auto simp: device_shape_ok_def slot_shape_ok_def)
  then show ?thesis
    unfolding write_to_string_def
    by (simp add: write_allocations_text write_header_text text_of_kvs_append)
qed

subsection \<open>Upper case and the special characters\<close>

lemma str_upper_plain:
  assumes "\<not> isupper x" "x \<notin> set s"
  shows "x \<notin> set (str_upper s)"
proof
  assume "x \<in> set (str_upper s)"
  then obtain c where c: "c \<in> set s" "x \<in> set (char_upper c)"
    by (auto simp: str_upper_def)
  from char_upper_cases [OF c(2)] assms(1) c(1) assms(2) show False by auto
qed

lemma isspace_not_upper: "isspace c \<Longrightarrow> \<not> isupper c"
  by (auto simp: isspace_def isupper_def)

lemma hd_str_upper:
  assumes "s \<noteq> []"
  shows "hd (str_upper s) = hd s \<or> isupper (hd (str_upper s))"
proof -
  from assms obtain c cs where s: "s = c # cs" by (cases s) auto
  have "hd (str_upper s) = hd (char_upper c)"
    using char_upper_not_Nil [of c] by (simp add: s str_upper_def)
  moreover have "hd (char_upper c) \<in> set (char_upper c)"
    using char_upper_not_Nil [of c] by simp
  ultimately show ?thesis using char_upper_cases [of "hd (char_upper c)" c] by (simp add: s)
qed

lemma str_lower_upper_id:
  assumes "\<forall>c \<in> set s. (of_char c :: nat) < 128 \<and> \<not> isupper c"
  shows "str_lower (str_upper s) = s"
proof -
  have "CHR 0xDF \<notin> set s"
  proof
    assume "CHR 0xDF \<in> set s"
    with assms have "(of_char (CHR 0xDF) :: nat) < 128" by blast
    then show False by simp
  qed
  then have "str_lower (str_upper s) = str_lower s" by (rule str_lower_upper)
  also have "\<dots> = s"
    using assms by (induction s) (auto simp: str_lower_def char_lower_id)
  finally show ?thesis .
qed

lemma slot_key_decode:
  assumes "slot_name_ok s"
  shows "str_endswith (slot_key s) ''_SHARES''"
    and "str_lower (take (length (slot_key s) - 7) (slot_key s)) = s"
proof -
  show "str_endswith (slot_key s) ''_SHARES''"
    by (simp add: slot_key_def str_endswith_def)
  from assms have "\<forall>c \<in> set s. (of_char c :: nat) < 128 \<and> \<not> isupper c"
    by (auto simp: slot_name_ok_def)
  then show "str_lower (take (length (slot_key s) - 7) (slot_key s)) = s"
    by (simp add: slot_key_def str_lower_upper_id)
qed

text \<open>What a slot name needs for its key to head a line of the text.\<close>

lemma slot_key_plain:
  assumes "CHR ''='' \<notin> set s" "CHR 0x0A \<notin> set s" "s = [] \<or> \<not> isspace (hd s)"
  shows "CHR ''='' \<notin> set (slot_key s)" "CHR 0x0A \<notin> set (slot_key s)"
    "\<not> isspace (hd (slot_key s))"
proof -
  have eq: "\<not> isupper CHR ''=''" and nl: "\<not> isupper CHR 0x0A"
    by (simp_all add: isupper_def)
  show "CHR ''='' \<notin> set (slot_key s)"
    using str_upper_plain [OF eq assms(1)] by (simp add: slot_key_def)
  show "CHR 0x0A \<notin> set (slot_key s)"
    using str_upper_plain [OF nl assms(2)] by (simp add: slot_key_def)
  show "\<not> isspace (hd (slot_key s))"
  proof (cases "s = []")
    case True
    then show ?thesis by (simp add: slot_key_def str_upper_def isspace_def)
  next
    case False
    with assms(3) have "\<not> isspace (hd s)" by simp
    with hd_str_upper [OF False] isspace_not_upper have "\<not> isspace (hd (str_upper s))"
      by metis
    moreover have "str_upper s \<noteq> []"
      using False char_upper_not_Nil by (cases s) (auto simp: str_upper_def)
    ultimately show ?thesis by (simp add: slot_key_def)
  qed
qed

lemma slot_key_ok:
  assumes "slot_name_ok s"
  shows "CHR ''='' \<notin> set (slot_key s)" "CHR 0x0A \<notin> set (slot_key s)"
    "\<not> isspace (hd (slot_key s))"
proof -
  from assms have s: "CHR ''='' \<notin> set s" "CHR 0x0A \<notin> set s" "s = [] \<or> \<not> isspace (hd s)"
    by (auto simp: slot_name_ok_def)
  then show "CHR ''='' \<notin> set (slot_key s)" "CHR 0x0A \<notin> set (slot_key s)"
    "\<not> isspace (hd (slot_key s))"
    by (rule slot_key_plain)+
qed

lemma slot_key_not_header:
  "slot_key s \<noteq> ''CID''" "slot_key s \<noteq> ''SCRATCH_SIZE''" "slot_key s \<noteq> ''MOUNTS''"
  "slot_key s \<noteq> ''SLOTS''"
proof -
  have e: "str_endswith (slot_key s) ''_SHARES''"
    by (simp add: slot_key_def str_endswith_def)
  have "\<not> str_endswith ''CID'' ''_SHARES''" "\<not> str_endswith ''SCRATCH_SIZE'' ''_SHARES''"
    "\<not> str_endswith ''MOUNTS'' ''_SHARES''" "\<not> str_endswith ''SLOTS'' ''_SHARES''"
    by (simp_all add: str_endswith_def)
  with e show "slot_key s \<noteq> ''CID''" "slot_key s \<noteq> ''SCRATCH_SIZE''"
    "slot_key s \<noteq> ''MOUNTS''" "slot_key s \<noteq> ''SLOTS''"
    by metis+
qed

subsection \<open>The device name of a slot name\<close>

lemma device_of_slot:
  assumes "CHR ''.'' \<notin> set dev" "s = dev \<or> str_startswith s (dev @ ''.'')"
  shows "hd (str_split CHR ''.'' s) = dev"
proof -
  from assms(2) consider "s = dev" | rest where "s = dev @ CHR ''.'' # rest"
  proof (elim disjE)
    assume "s = dev" then show ?thesis using that by blast
  next
    assume "str_startswith s (dev @ ''.'')"
    then have "s = (dev @ ''.'') @ drop (length (dev @ ''.'')) s"
      unfolding str_startswith_def by (metis append_take_drop_id)
    then show ?thesis using that by simp
  qed
  then show ?thesis
  proof cases
    case 1
    with assms(1) show ?thesis by (auto simp: hd_str_split takeWhile_eq_all_conv)
  next
    case 2
    with assms(1) show ?thesis by (auto simp: hd_str_split takeWhile_tail takeWhile_eq_all_conv)
  qed
qed

subsection \<open>Reading the entries of a slot back\<close>

lemma str_partition_at: "c \<notin> set k \<Longrightarrow> str_partition c (k @ c # v) = (k, v)"
  by (induction k) (auto simp: str_partition_def)

lemma rendering_read:
  assumes "rendering_ok lib kst s d"
  shows "read_alloc lib kst s (write_alloc lib kst s d) = Inr (reread_amount lib kst s d)"
  using assms unfolding rendering_ok_def reread_amount_def
  by (cases "read_alloc lib kst s (write_alloc lib kst s d)") auto

lemma alloc_ok_rendering:
  "alloc_ok lib kst s d \<longleftrightarrow> rendering_ok lib kst s d \<and> reread_amount lib kst s d = d"
  unfolding alloc_ok_def rendering_ok_def reread_amount_def
  by (cases "read_alloc lib kst s (write_alloc lib kst s d)") auto

lemma read_entries_pieces:
  assumes "\<forall>item \<in> set pda. dev_id_ok (fst item) \<and> rendering_ok lib kst slot_name (snd item)"
    and "distinct (map fst (acc @ pda))"
  shows "read_entries lib kst slot_name (map (write_piece lib kst slot_name) pda) (acc, w)
       = Inr (acc @ snd (reread_slot lib kst (slot_name, pda)), w)"
  using assms
proof (induction pda arbitrary: acc)
  case Nil
  then show ?case by (simp add: reread_slot_def)
next
  case (Cons item pda)
  obtain dev_id d where item: "item = (dev_id, d)" by (cases item)
  let ?a = "write_alloc lib kst slot_name d"
  let ?d = "reread_amount lib kst slot_name d"
  from Cons.prems(1) item have ok: "dev_id \<noteq> []" "CHR '':'' \<notin> set dev_id" "?a \<noteq> []"
    and rendering: "rendering_ok lib kst slot_name d"
    by (auto simp: dev_id_ok_def rendering_ok_def)
  note read = rendering_read [OF rendering]
  have part: "str_partition CHR '':'' (write_piece lib kst slot_name item) = (dev_id, ?a)"
    using ok(2) by (simp add: write_piece_alloc item str_partition_at)
  have new: "dev_id \<notin> fst ` set acc" using Cons.prems(2) item by auto
  have "read_entries lib kst slot_name (map (write_piece lib kst slot_name) (item # pda)) (acc, w)
      = read_entries lib kst slot_name (map (write_piece lib kst slot_name) pda)
          (dict_set acc dev_id ?d, w)"
    using part ok read by simp
  also have "dict_set acc dev_id ?d = acc @ [(dev_id, ?d)]"
    using new by (rule dict_set_append_new)
  also have "read_entries lib kst slot_name (map (write_piece lib kst slot_name) pda)
        (acc @ [(dev_id, ?d)], w)
      = Inr ((acc @ [(dev_id, ?d)]) @ snd (reread_slot lib kst (slot_name, pda)), w)"
    using Cons.prems item by (intro Cons.IH) auto
  finally show ?case by (simp add: item reread_slot_def)
qed

lemma write_piece_plain:
  assumes "dev_id_ok (fst item)" "rendering_ok lib kst slot_name (snd item)"
  shows "CHR '','' \<notin> set (write_piece lib kst slot_name item)"
    and "CHR 0x0A \<notin> set (write_piece lib kst slot_name item)"
    and "write_piece lib kst slot_name item \<noteq> []"
    and "\<not> isspace (last (write_piece lib kst slot_name item))"
  using assms
  by (auto simp: write_piece_alloc dev_id_ok_def rendering_ok_def line_value_ok_def)

lemma read_entries_slot_val:
  assumes "\<forall>item \<in> set pda. dev_id_ok (fst item) \<and> rendering_ok lib kst slot_name (snd item)"
    and "distinct (map fst pda)"
  shows "read_entries lib kst slot_name
           (str_split CHR '','' (slot_val lib kst (slot_name, pda))) ([], w)
       = Inr (snd (reread_slot lib kst (slot_name, pda)), w)"
proof (cases "pda = []")
  case True
  then show ?thesis by (simp add: slot_val_def str_partition_def reread_slot_def)
next
  case False
  have "str_split CHR '','' (str_join [CHR '',''] (map (write_piece lib kst slot_name) pda))
      = map (write_piece lib kst slot_name) pda"
  proof (intro str_split_join ballI)
    fix x assume "x \<in> set (map (write_piece lib kst slot_name) pda)"
    then obtain item where "item \<in> set pda" "x = write_piece lib kst slot_name item" by auto
    with assms(1) show "CHR '','' \<notin> set x" using write_piece_plain(1) by blast
  qed (use False in simp)
  then show ?thesis
    using read_entries_pieces [OF assms(1), of "[]" w] assms(2) by (simp add: slot_val_def)
qed

lemma slot_val_line_value_ok:
  assumes "\<forall>item \<in> set pda. dev_id_ok (fst item) \<and> rendering_ok lib kst slot_name (snd item)"
  shows "line_value_ok (slot_val lib kst (slot_name, pda))"
proof (cases "pda = []")
  case True
  then show ?thesis by (simp add: slot_val_def line_value_ok_def)
next
  case False
  let ?pieces = "map (write_piece lib kst slot_name) pda"
  have "\<forall>x \<in> set ?pieces. CHR 0x0A \<notin> set x"
  proof
    fix x assume "x \<in> set ?pieces"
    then obtain item where "item \<in> set pda" "x = write_piece lib kst slot_name item" by auto
    with assms show "CHR 0x0A \<notin> set x" using write_piece_plain(2) by blast
  qed
  then have nl: "CHR 0x0A \<notin> set (str_join '','' ?pieces)"
    using set_str_join [of "'',''" ?pieces] by fastforce
  have lastp: "dev_id_ok (fst (last pda))" "rendering_ok lib kst slot_name (snd (last pda))"
    using assms False by simp_all
  have lastpiece: "last ?pieces = write_piece lib kst slot_name (last pda)"
    using False by (simp add: last_map)
  have ne: "last ?pieces \<noteq> []"
    unfolding lastpiece using lastp by (rule write_piece_plain(3))
  have "last (str_join '','' ?pieces) = last (last ?pieces)"
    using False ne by (intro last_str_join) auto
  moreover have "\<not> isspace (last (last ?pieces))"
    unfolding lastpiece using lastp by (rule write_piece_plain(4))
  ultimately have "\<not> isspace (last (str_join '','' ?pieces))" by simp
  with nl show ?thesis by (simp add: line_value_ok_def slot_val_def)
qed

subsection \<open>Rebuilding the nested mapping\<close>

lemma dict_set_last:
  "k \<notin> fst ` set d \<Longrightarrow> dict_set (d @ [(k, v0)]) k v = d @ [(k, v)]"
  unfolding dict_set_def by (induction d) auto

lemma map_of_last:
  "k \<notin> fst ` set d \<Longrightarrow> map_of (d @ [(k, v)]) k = Some v"
  by (induction d) auto

lemma allocations_set_new:
  "dev \<notin> fst ` set B \<Longrightarrow> allocations_set B dev s v = B @ [(dev, [(s, v)])]"
proof -
  assume new: "dev \<notin> fst ` set B"
  then have "map_of B dev = None" by (simp add: map_of_eq_None_iff)
  then show ?thesis
    unfolding allocations_set_def using dict_set_append_new [OF new]
    by (simp add: dict_set_def)
qed

lemma allocations_set_last:
  assumes "dev \<notin> fst ` set B" "s \<notin> fst ` set cur"
  shows "allocations_set (B @ [(dev, cur)]) dev s v = B @ [(dev, cur @ [(s, v)])]"
  unfolding allocations_set_def
  by (simp add: map_of_last [OF assms(1)] dict_set_append_new [OF assms(2)]
      dict_set_last [OF assms(1)] del: map_of_append)

lemma fst_reread_slot: "fst (reread_slot lib kst slot) = fst slot"
  by (simp add: reread_slot_def)

lemma reread_slot_pair:
  "reread_slot lib kst (s, pda) = (s, snd (reread_slot lib kst (s, pda)))"
  by (simp add: reread_slot_def)

lemma read_allocations_slot:
  assumes "CHR ''.'' \<notin> set dev" "slot_ok lib kst dev (s, pda)"
  shows "read_allocations lib kst (slot_kv lib kst (s, pda) # rest) (allocs, w)
       = read_allocations lib kst rest
           (allocations_set allocs dev s (snd (reread_slot lib kst (s, pda))), w)"
proof -
  from assms(2) have shape: "slot_shape_ok dev (s, pda)"
    and amounts: "\<forall>item \<in> set pda. rendering_ok lib kst s (snd item)"
    by (auto simp: slot_ok_def)
  from shape have name: "slot_name_ok s" and pre: "s = dev \<or> str_startswith s (dev @ ''.'')"
    and ids: "distinct (map fst pda)" "\<forall>item \<in> set pda. dev_id_ok (fst item)"
    by (auto simp: slot_shape_ok_def)
  have dev: "hd (str_split CHR ''.'' s) = dev"
    using assms(1) pre by (rule device_of_slot)
  have ent: "read_entries lib kst s (str_split CHR '','' (slot_val lib kst (s, pda))) ([], w)
      = Inr (snd (reread_slot lib kst (s, pda)), w)"
    using ids amounts by (intro read_entries_slot_val) auto
  show ?thesis
    unfolding slot_kv_def
    by (simp add: slot_key_decode [OF name] dev ent Let_def)
qed

lemma read_allocations_slots:
  assumes "CHR ''.'' \<notin> set dev" "dev \<notin> fst ` set B"
    and "\<forall>slot \<in> set sl. slot_ok lib kst dev slot"
    and "distinct (map fst (cur @ sl))"
  shows "read_allocations lib kst (map (slot_kv lib kst) sl @ rest) (B @ [(dev, cur)], w)
       = read_allocations lib kst rest (B @ [(dev, cur @ map (reread_slot lib kst) sl)], w)"
  using assms(3,4)
proof (induction sl arbitrary: cur)
  case Nil
  then show ?case by simp
next
  case (Cons x sl)
  obtain s pda where x: "x = (s, pda)" by (cases x)
  let ?p = "snd (reread_slot lib kst (s, pda))"
  from Cons.prems x have ok: "slot_ok lib kst dev (s, pda)" and new: "s \<notin> fst ` set cur"
    by auto
  have "read_allocations lib kst (map (slot_kv lib kst) (x # sl) @ rest) (B @ [(dev, cur)], w)
      = read_allocations lib kst (map (slot_kv lib kst) sl @ rest)
          (allocations_set (B @ [(dev, cur)]) dev s ?p, w)"
    using read_allocations_slot [OF assms(1) ok] by (simp add: x)
  also have "allocations_set (B @ [(dev, cur)]) dev s ?p = B @ [(dev, cur @ [(s, ?p)])]"
    using assms(2) new by (rule allocations_set_last)
  also have "read_allocations lib kst (map (slot_kv lib kst) sl @ rest)
        (B @ [(dev, cur @ [(s, ?p)])], w)
      = read_allocations lib kst rest
          (B @ [(dev, (cur @ [(s, ?p)]) @ map (reread_slot lib kst) sl)], w)"
    using Cons.prems x by (intro Cons.IH) auto
  finally show ?case using reread_slot_pair [of lib kst s pda] by (simp add: x)
qed

lemma read_allocations_device:
  assumes "device_shape_ok (dev, sl)" "\<forall>slot \<in> set sl. slot_ok lib kst dev slot"
    and "dev \<notin> fst ` set B"
  shows "read_allocations lib kst (map (slot_kv lib kst) sl @ rest) (B, w)
       = read_allocations lib kst rest (B @ [(dev, map (reread_slot lib kst) sl)], w)"
proof -
  from assms(1) have dot: "CHR ''.'' \<notin> set dev" and ne: "sl \<noteq> []"
    and dist: "distinct (map fst sl)"
    by (auto simp: device_shape_ok_def)
  from ne obtain x sl' where sl: "sl = x # sl'" by (cases sl) auto
  obtain s pda where x: "x = (s, pda)" by (cases x)
  let ?p = "snd (reread_slot lib kst (s, pda))"
  from assms(2) sl x have ok: "slot_ok lib kst dev (s, pda)" by simp
  have "read_allocations lib kst (map (slot_kv lib kst) sl @ rest) (B, w)
      = read_allocations lib kst (map (slot_kv lib kst) sl' @ rest)
          (allocations_set B dev s ?p, w)"
    using read_allocations_slot [OF dot ok] by (simp add: sl x)
  also have "allocations_set B dev s ?p = B @ [(dev, [(s, ?p)])]"
    using assms(3) by (rule allocations_set_new)
  also have "read_allocations lib kst (map (slot_kv lib kst) sl' @ rest)
        (B @ [(dev, [(s, ?p)])], w)
      = read_allocations lib kst rest
          (B @ [(dev, [(s, ?p)] @ map (reread_slot lib kst) sl')], w)"
    using assms(2) dist sl x by (intro read_allocations_slots [OF dot assms(3)]) auto
  finally show ?thesis using reread_slot_pair [of lib kst s pda] by (simp add: sl x)
qed

lemma alloc_kvs_Cons:
  "alloc_kvs lib kst ((dev, sl) # A) = map (slot_kv lib kst) sl @ alloc_kvs lib kst A"
  by (simp add: alloc_kvs_def slot_kv_def)

lemma read_allocations_alloc_kvs:
  assumes "\<forall>device \<in> set A. device_shape_ok device
      \<and> (\<forall>slot \<in> set (snd device). slot_ok lib kst (fst device) slot)"
    and "distinct (map fst (B @ A))"
  shows "read_allocations lib kst (alloc_kvs lib kst A) (B, w)
       = Inr (B @ reread_allocations lib kst A, w)"
  using assms
proof (induction A arbitrary: B)
  case Nil
  then show ?case by (simp add: alloc_kvs_def reread_allocations_def)
next
  case (Cons x A)
  obtain dev sl where x: "x = (dev, sl)" by (cases x)
  from Cons.prems x have ok: "device_shape_ok (dev, sl)"
      "\<forall>slot \<in> set sl. slot_ok lib kst dev slot" and new: "dev \<notin> fst ` set B"
    by auto
  have "read_allocations lib kst (alloc_kvs lib kst (x # A)) (B, w)
      = read_allocations lib kst (alloc_kvs lib kst A)
          (B @ [(dev, map (reread_slot lib kst) sl)], w)"
    unfolding x alloc_kvs_Cons using ok new by (rule read_allocations_device)
  also have "\<dots> = Inr ((B @ [(dev, map (reread_slot lib kst) sl)])
      @ reread_allocations lib kst A, w)"
    using Cons.prems x by (intro Cons.IH) auto
  finally show ?case by (simp add: x reread_allocations_def)
qed

lemma read_allocations_header:
  "read_allocations lib kst (header_kvs lib r @ kvs) (allocs, w)
   = read_allocations lib kst kvs (allocs, w)"
  by (simp add: header_kvs_def str_endswith_def)

subsection \<open>The keys of the written text are distinct\<close>

lemma slot_device:
  assumes "device_shape_ok (dev, sl)" "(s, p) \<in> set sl"
  shows "hd (str_split CHR ''.'' s) = dev" and "slot_name_ok s"
proof -
  from assms have dot: "CHR ''.'' \<notin> set dev" and shape: "slot_shape_ok dev (s, p)"
    by (auto simp: device_shape_ok_def)
  from shape have "s = dev \<or> str_startswith s (dev @ ''.'')" and name: "slot_name_ok s"
    by (auto simp: slot_shape_ok_def)
  with dot show "hd (str_split CHR ''.'' s) = dev" by (intro device_of_slot)
  from name show "slot_name_ok s" .
qed

lemma slot_names_member:
  "s \<in> set (slot_names A) \<longleftrightarrow> (\<exists>dev sl p. (dev, sl) \<in> set A \<and> (s, p) \<in> set sl)"
proof
  assume "s \<in> set (slot_names A)"
  then obtain device where d: "device \<in> set A" "s \<in> set (map fst (snd device))"
    by (auto simp: slot_names_def)
  from d(2) obtain slot where "slot \<in> set (snd device)" "fst slot = s" by auto
  then have "(s, snd slot) \<in> set (snd device)" by auto
  moreover from d(1) have "(fst device, snd device) \<in> set A" by simp
  ultimately show "\<exists>dev sl p. (dev, sl) \<in> set A \<and> (s, p) \<in> set sl" by blast
next
  assume "\<exists>dev sl p. (dev, sl) \<in> set A \<and> (s, p) \<in> set sl"
  then obtain dev sl p where in_A: "(dev, sl) \<in> set A" "(s, p) \<in> set sl" by blast
  from in_A(2) have "s \<in> set (map fst sl)" by force
  with in_A(1) show "s \<in> set (slot_names A)"
    unfolding slot_names_def by force
qed

lemma slot_names_distinct:
  assumes "distinct (map fst A)" "\<forall>device \<in> set A. device_shape_ok device"
  shows "distinct (slot_names A)"
  using assms
proof (induction A)
  case Nil
  then show ?case by (simp add: slot_names_def)
next
  case (Cons x A)
  obtain dev sl where x: "x = (dev, sl)" by (cases x)
  from Cons.prems x have shape: "device_shape_ok (dev, sl)" and new: "dev \<notin> fst ` set A"
    by auto
  from shape have d1: "distinct (map fst sl)" by (simp add: device_shape_ok_def)
  from Cons have d2: "distinct (slot_names A)" by simp
  have disj: "set (map fst sl) \<inter> set (slot_names A) = {}"
  proof (rule ccontr)
    assume "set (map fst sl) \<inter> set (slot_names A) \<noteq> {}"
    then obtain s where s1: "s \<in> set (map fst sl)" and s2: "s \<in> set (slot_names A)" by blast
    from s1 obtain p where "(s, p) \<in> set sl" by auto
    from slot_device(1) [OF shape this] have a: "hd (str_split CHR ''.'' s) = dev" .
    from s2 obtain dev' sl' p' where in_A: "(dev', sl') \<in> set A" "(s, p') \<in> set sl'"
      unfolding slot_names_member by blast
    with Cons.prems(2) have "device_shape_ok (dev', sl')" by simp
    from slot_device(1) [OF this in_A(2)] a have "dev' = dev" by simp
    with in_A(1) new show False by force
  qed
  have "slot_names (x # A) = map fst sl @ slot_names A"
    by (simp add: slot_names_def x)
  with d1 d2 disj show ?case by simp
qed

lemma slot_names_ok:
  assumes "\<forall>device \<in> set A. device_shape_ok device" "s \<in> set (slot_names A)"
  shows "slot_name_ok s"
proof -
  from assms(2) obtain dev sl p where "(dev, sl) \<in> set A" "(s, p) \<in> set sl"
    unfolding slot_names_member by blast
  with assms(1) show ?thesis using slot_device(2) by blast
qed

lemma alloc_kvs_keys: "map fst (alloc_kvs lib kst A) = map slot_key (slot_names A)"
  by (induction A) (auto simp: alloc_kvs_def slot_names_def)

lemma alloc_kvs_keys_distinct:
  assumes "distinct (map fst A)" "\<forall>device \<in> set A. device_shape_ok device"
  shows "distinct (map fst (alloc_kvs lib kst A))"
proof -
  have "inj_on slot_key (set (slot_names A))"
  proof (rule inj_onI)
    fix a b assume a: "a \<in> set (slot_names A)" and b: "b \<in> set (slot_names A)"
      and eq: "slot_key a = slot_key b"
    have "str_lower (take (length (slot_key a) - 7) (slot_key a)) = a"
      using slot_names_ok [OF assms(2) a] by (rule slot_key_decode(2))
    moreover have "str_lower (take (length (slot_key b) - 7) (slot_key b)) = b"
      using slot_names_ok [OF assms(2) b] by (rule slot_key_decode(2))
    ultimately show "a = b" unfolding eq by (rule trans [OF sym])
  qed
  with slot_names_distinct [OF assms] show ?thesis
    by (simp add: alloc_kvs_keys distinct_map)
qed

lemma written_keys_distinct:
  assumes "distinct (map fst A)" "\<forall>device \<in> set A. device_shape_ok device"
  shows "distinct (map fst (header_kvs lib r @ alloc_kvs lib kst A))"
proof -
  have "set (map fst (header_kvs lib r)) \<inter> set (map fst (alloc_kvs lib kst A)) = {}"
    using slot_key_not_header [THEN not_sym] by (auto simp: header_kvs_def alloc_kvs_keys)
  moreover have "distinct (map fst (header_kvs lib r))"
    by (simp add: header_kvs_def)
  ultimately show ?thesis
    using alloc_kvs_keys_distinct [OF assms] by simp
qed

subsection \<open>The lines of the written text\<close>

lemma alloc_kvs_member:
  "kv \<in> set (alloc_kvs lib kst A)
   \<longleftrightarrow> (\<exists>dev sl slot. (dev, sl) \<in> set A \<and> slot \<in> set sl \<and> kv = slot_kv lib kst slot)"
proof
  assume "kv \<in> set (alloc_kvs lib kst A)"
  then obtain device slot where d: "device \<in> set A" "slot \<in> set (snd device)"
      "kv = slot_kv lib kst slot"
    by (auto simp: alloc_kvs_def slot_kv_def)
  from d(1) have "(fst device, snd device) \<in> set A" by simp
  with d(2,3) show "\<exists>dev sl slot. (dev, sl) \<in> set A \<and> slot \<in> set sl \<and> kv = slot_kv lib kst slot"
    by blast
next
  assume "\<exists>dev sl slot. (dev, sl) \<in> set A \<and> slot \<in> set sl \<and> kv = slot_kv lib kst slot"
  then show "kv \<in> set (alloc_kvs lib kst A)"
    by (force simp: alloc_kvs_def slot_kv_def)
qed

lemma alloc_kvs_ok:
  assumes "\<forall>device \<in> set A. device_shape_ok device
      \<and> (\<forall>slot \<in> set (snd device). slot_ok lib kst (fst device) slot)"
    and "kv \<in> set (alloc_kvs lib kst A)"
  shows "kv_ok kv"
proof -
  from assms(2) obtain dev sl slot where in_A: "(dev, sl) \<in> set A" "slot \<in> set sl"
    and kv: "kv = slot_kv lib kst slot"
    unfolding alloc_kvs_member by blast
  obtain s pda where slot: "slot = (s, pda)" by (cases slot)
  from assms(1) in_A slot have ok: "slot_ok lib kst dev (s, pda)" by auto
  then have name: "slot_name_ok s"
    and items: "\<forall>item \<in> set pda. dev_id_ok (fst item) \<and> rendering_ok lib kst s (snd item)"
    by (auto simp: slot_ok_def slot_shape_ok_def)
  from slot_key_ok [OF name] slot_val_line_value_ok [OF items]
  show ?thesis by (simp add: kv slot slot_kv_def kv_ok_def)
qed

lemma header_kvs_ok:
  assumes "line_value_ok (container_id r)" "\<forall>m \<in> set (mounts r). mount_ok m" "header_ok lib r"
    and "kv \<in> set (header_kvs lib r)"
  shows "kv_ok kv"
  using assms mounts_line_value_ok [OF assms(2)]
  by (auto simp: header_kvs_def kv_ok_def header_ok_def isspace_def)

subsection \<open>From a record to its text and back\<close>

lemma devices_ok:
  assumes "shape_ok r" "renderings_ok lib kst r"
  shows "\<forall>device \<in> set (allocations r). device_shape_ok device
      \<and> (\<forall>slot \<in> set (snd device). slot_ok lib kst (fst device) slot)"
  using assms
  by (auto simp: shape_ok_def renderings_ok_def slot_ok_def device_shape_ok_def)

text \<open>
  The text of a record that survives the text form, but for its amounts, is read to the
  record with every amount read again from its rendering.
\<close>

lemma record_reread:
  assumes "shape_ok r" "header_ok lib r" "renderings_ok lib kst r"
  shows "write_to_string lib kst r
         = Inr (text_of_kvs (header_kvs lib r @ alloc_kvs lib kst (allocations r)))"
    and "read_from_string_log lib kst
           (text_of_kvs (header_kvs lib r @ alloc_kvs lib kst (allocations r)))
         = Inr (r\<lparr>allocations := reread_allocations lib kst (allocations r)\<rparr>, [])"
proof -
  let ?kvs = "header_kvs lib r @ alloc_kvs lib kst (allocations r)"
  from assms(1) have shape: "line_value_ok (container_id r)" "\<forall>m \<in> set (mounts r). mount_ok m"
      "distinct (map fst (allocations r))" "\<forall>device \<in> set (allocations r). device_shape_ok device"
    by (auto simp: shape_ok_def)
  note devs = devices_ok [OF assms(1,3)]
  show "write_to_string lib kst r = Inr (text_of_kvs ?kvs)"
    using shape(4) by (rule write_to_string_text)
  have ok: "\<forall>kv \<in> set ?kvs. kv_ok kv"
    using header_kvs_ok [OF shape(1,2) assms(2)] alloc_kvs_ok [OF devs] by auto
  have dist: "distinct (map fst ?kvs)"
    using shape(3,4) by (rule written_keys_distinct)
  have kv: "read_kvpairs (text_of_kvs ?kvs) = ?kvs"
    unfolding text_of_kvs_def using ok dist by (rule read_kvpairs_lines)
  have allocs: "read_allocations lib kst ?kvs ([], [])
      = Inr (reread_allocations lib kst (allocations r), [])"
    unfolding read_allocations_header
    using read_allocations_alloc_kvs [OF devs, of "[]" "[]"] shape(3) by simp
  have mounts: "read_mounts (str_split CHR '','' (str_join '','' (map Mount_str (mounts r))))
      = Inr (mounts r)"
    using shape(2) by (rule read_mounts_line)
  have look: "map_of ?kvs ''MOUNTS'' = Some (str_join '','' (map Mount_str (mounts r)))"
    "map_of ?kvs ''SCRATCH_SIZE'' = Some (BinarySize_format lib CHR ''m'' (scratch_disk_size r))"
    "map_of ?kvs ''SLOTS'' = Some (json_dumps lib (slots r))"
    "map_of ?kvs ''CID'' = Some (container_id r)"
    by (simp_all add: header_kvs_def)
  from assms(2) have lib: "BinarySize_finite_from_str lib
        (BinarySize_format lib CHR ''m'' (scratch_disk_size r)) = Inr (scratch_disk_size r)"
      "ResourceSlot_of_json lib (json_dumps lib (slots r)) = Inr (slots r)"
    by (auto simp: header_ok_def)
  show "read_from_string_log lib kst (text_of_kvs ?kvs)
      = Inr (r\<lparr>allocations := reread_allocations lib kst (allocations r)\<rparr>, [])"
    unfolding read_from_string_log_def kv Let_def allocs look
    by (simp add: mounts lib)
qed

text \<open>Amounts that the library reads back from their renderings are read again as they are.\<close>

lemma amounts_renderings:
  assumes "amounts_ok lib kst r"
  shows "renderings_ok lib kst r"
    and "reread_allocations lib kst (allocations r) = allocations r"
proof -
  have ok: "rendering_ok lib kst (fst slot) (snd item)"
      "reread_amount lib kst (fst slot) (snd item) = snd item"
    if "device \<in> set (allocations r)" "slot \<in> set (snd device)" "item \<in> set (snd slot)"
    for device slot item
  proof -
    from assms that have "alloc_ok lib kst (fst slot) (snd item)"
      unfolding amounts_ok_def by blast
    then have "rendering_ok lib kst (fst slot) (snd item)
        \<and> reread_amount lib kst (fst slot) (snd item) = snd item"
      by (simp only: alloc_ok_rendering)
    then show "rendering_ok lib kst (fst slot) (snd item)"
      "reread_amount lib kst (fst slot) (snd item) = snd item" by blast+
  qed
  show "renderings_ok lib kst r"
    unfolding renderings_ok_def
  proof (intro ballI)
    fix device slot item
    assume "device \<in> set (allocations r)" "slot \<in> set (snd device)" "item \<in> set (snd slot)"
    then show "rendering_ok lib kst (fst slot) (snd item)" by (rule ok(1))
  qed
  have slot: "reread_slot lib kst slot = slot"
    if d: "device \<in> set (allocations r)" and s: "slot \<in> set (snd device)" for device slot
  proof -
    have "map (\<lambda>item. (fst item, reread_amount lib kst (fst slot) (snd item))) (snd slot)
        = snd slot"
    proof (rule map_idI)
      fix item assume "item \<in> set (snd slot)"
      with d s have "reread_amount lib kst (fst slot) (snd item) = snd item" by (rule ok(2))
      then show "(fst item, reread_amount lib kst (fst slot) (snd item)) = item" by simp
    qed
    then show ?thesis by (simp add: reread_slot_def)
  qed
  have device: "(fst device, map (reread_slot lib kst) (snd device)) = device"
    if d: "device \<in> set (allocations r)" for device
  proof -
    have "map (reread_slot lib kst) (snd device) = snd device"
    proof (rule map_idI)
      fix slot assume "slot \<in> set (snd device)"
      with d show "reread_slot lib kst slot = slot" by (rule slot)
    qed
    then show ?thesis by simp
  qed
  show "reread_allocations lib kst (allocations r) = allocations r"
    unfolding reread_allocations_def
  proof (rule map_idI)
    fix x assume "x \<in> set (allocations r)"
    then show "(fst x, map (reread_slot lib kst) (snd x)) = x" by (rule device)
  qed
qed

lemma record_roundtrip:
  assumes "shape_ok r" "header_ok lib r" "amounts_ok lib kst r"
  shows "write_to_string lib kst r
         = Inr (text_of_kvs (header_kvs lib r @ alloc_kvs lib kst (allocations r)))"
    and "read_from_string_log lib kst
           (text_of_kvs (header_kvs lib r @ alloc_kvs lib kst (allocations r))) = Inr (r, [])"
  using record_reread [OF assms(1,2) amounts_renderings(1) [OF assms(3)]]
    amounts_renderings(2) [OF assms(3)]
  by simp_all


subsection \<open>The example record\<close>

lemma example_shape: "shape_ok example_spec"
  by (simp add: shape_ok_def example_spec_def line_value_ok_def isspace_def mount_ok_def
      path_normal_def path_plain_def is_absolute_def device_shape_ok_def slot_shape_ok_def
      slot_name_ok_def dev_id_ok_def str_startswith_def isupper_def)

lemma str_of_nat_examples:
  "str_of_nat 0 = ''0''" "str_of_nat (Suc 0) = ''1''" "str_of_nat 10 = ''10''"
  "str_of_nat 20 = ''20''" "str_of_nat 1024 = ''1024''"
  by code_simp+

lemma example_sizes:
  "units_BinarySize_format CHR ''m'' 0 = ''0m''"
  "units_BinarySize_from_str ''0m'' = Inr 0"
  "units_BinarySize_format CHR ''m'' (2 ^ 30) = ''1024m''"
  "units_BinarySize_from_str ''1024m'' = Inr (2 ^ 30)"
  "units_BinarySize_format CHR ''s'' (10 * 2 ^ 30) = ''10g''"
  "units_BinarySize_from_str ''10g'' = Inr (10 * 2 ^ 30)"
  by (simp_all add: units_BinarySize_format_def units_BinarySize_from_str_def auto_unit_def
      binary_unit_def whole_units_str_def str_of_nat_examples nat_of_str_def isdigit_def)

lemma example_header: "header_ok int_library example_spec"
  by (simp add: header_ok_def example_spec_def int_library_def example_sizes [simplified]
      line_value_ok_def isspace_def plain_json_dumps_def plain_json_loads_def)

lemma example_counts:
  "int_Decimal_str 1 = ''1''" "int_Decimal_of_str ''1'' = Inr 1"
  "int_Decimal_str 20 = ''20''" "int_Decimal_of_str ''20'' = Inr 20"
  by (simp_all add: int_Decimal_str_def int_Decimal_of_str_def str_of_nat_examples
      nat_of_str_def isdigit_def)

lemma example_amounts: "amounts_ok int_library example_slot_types example_spec"
  by (simp add: amounts_ok_def example_spec_def alloc_ok_def write_alloc_def read_alloc_def
      slot_type_def example_slot_types_def int_library_def example_sizes [simplified]
      example_counts line_value_ok_def isspace_def)

text \<open>
  C1.  As amended: a record that survives the text form is read back from its text.  When the
  strings of the record stay clear of the separators of the text form, its slot names are
  in lower case and filed under their device name, no device is without slots
  (\<open>shape_ok\<close>), and the library reads the scratch size, the slots and every amount back
  from their renderings (\<open>header_ok\<close>, \<open>amounts_ok\<close>), then \<^verbatim>\<open>write_to_string\<close> returns a
  text and \<^verbatim>\<open>read_from_string\<close> returns from it a record equal to the first in all fields.
\<close>

theorem write_read_roundtrip:
  assumes "shape_ok r" and "header_ok lib r" and "amounts_ok lib known_slot_types r"
  shows "\<exists>text. write_to_string lib known_slot_types r = Inr text
           \<and> read_from_string lib known_slot_types text = Inr r"
  using record_roundtrip [OF assms] by (simp add: read_from_string_def)

theorem write_read_roundtrip_witness:
  "shape_ok example_spec \<and> header_ok int_library example_spec
   \<and> amounts_ok int_library example_slot_types example_spec
   \<and> (\<exists>text. write_to_string int_library example_slot_types example_spec = Inr text
           \<and> read_from_string int_library example_slot_types text = Inr example_spec)"
  using write_read_roundtrip [OF example_shape example_header example_amounts]
    example_shape example_header example_amounts by simp

text \<open>
  The round trip fails outside these conditions, also with every slot name in the
  registry.  A device without slots writes no line and is missing from the record read
  back; a slot name with an upper-case letter comes back in lower case.
\<close>

theorem write_read_roundtrip_counterexample:
  "write_to_string int_library Map.empty
      \<lparr>container_id = ''c1'', slots = [], allocations = [(''cuda'', [])],
       scratch_disk_size = 0, mounts = []\<rparr>
     = Inr ''CID=c1\<newline>SCRATCH_SIZE=0m\<newline>MOUNTS=\<newline>SLOTS={}\<newline>''
   \<and> read_from_string int_library Map.empty
        ''CID=c1\<newline>SCRATCH_SIZE=0m\<newline>MOUNTS=\<newline>SLOTS={}\<newline>''
     = Inr \<lparr>container_id = ''c1'', slots = [], allocations = [],
            scratch_disk_size = 0, mounts = []\<rparr>
   \<and> [''cpu.Core'' \<mapsto> ''count''] ''cpu.Core'' = Some ''count''
   \<and> write_to_string int_library [''cpu.Core'' \<mapsto> ''count'']
      \<lparr>container_id = ''c1'', slots = [],
       allocations = [(''cpu'', [(''cpu.Core'', [(''0'', 1)])])],
       scratch_disk_size = 0, mounts = []\<rparr>
     = Inr ''CID=c1\<newline>SCRATCH_SIZE=0m\<newline>MOUNTS=\<newline>SLOTS={}\<newline>CPU.CORE_SHARES=0:1\<newline>''
   \<and> read_from_string int_library [''cpu.Core'' \<mapsto> ''count'']
        ''CID=c1\<newline>SCRATCH_SIZE=0m\<newline>MOUNTS=\<newline>SLOTS={}\<newline>CPU.CORE_SHARES=0:1\<newline>''
     = Inr \<lparr>container_id = ''c1'', slots = [],
            allocations = [(''cpu'', [(''cpu.core'', [(''0'', 1)])])],
            scratch_disk_size = 0, mounts = []\<rparr>"
proof -
  let ?t1 = "''CID=c1\<newline>SCRATCH_SIZE=0m\<newline>MOUNTS=\<newline>SLOTS={}\<newline>''"
  let ?t2 = "''CID=c1\<newline>SCRATCH_SIZE=0m\<newline>MOUNTS=\<newline>SLOTS={}\<newline>CPU.CORE_SHARES=0:1\<newline>''"
  note size = example_sizes(1,2)
  have upper: "str_upper ''cpu.Core'' = ''CPU.CORE''" by code_simp
  have lower: "str_lower ''CPU.CORE'' = ''cpu.core''" by code_simp
  have w1: "write_to_string int_library Map.empty
      \<lparr>container_id = ''c1'', slots = [], allocations = [(''cuda'', [])],
       scratch_disk_size = 0, mounts = []\<rparr> = Inr ?t1"
    by (simp add: write_to_string_def write_header_def int_library_def size
        plain_json_dumps_def)
  have kv1: "read_kvpairs ?t1
      = [(''CID'', ''c1''), (''SCRATCH_SIZE'', ''0m''), (''MOUNTS'', ''''), (''SLOTS'', ''{}'')]"
    by (simp add: read_kvpairs_def str_partition_def str_strip_def isspace_def dict_set_def)
  have r1: "read_from_string int_library Map.empty ?t1
      = Inr \<lparr>container_id = ''c1'', slots = [], allocations = [],
            scratch_disk_size = 0, mounts = []\<rparr>"
    by (simp add: read_from_string_def read_from_string_log_def kv1 str_endswith_def
        int_library_def size plain_json_loads_def)
  have w2: "write_to_string int_library [''cpu.Core'' \<mapsto> ''count'']
      \<lparr>container_id = ''c1'', slots = [],
       allocations = [(''cpu'', [(''cpu.Core'', [(''0'', 1)])])],
       scratch_disk_size = 0, mounts = []\<rparr> = Inr ?t2"
    by (simp add: write_to_string_def write_header_def int_library_def size
        plain_json_dumps_def str_startswith_def write_piece_def slot_type_def upper
        example_counts)
  have kv2: "read_kvpairs ?t2
      = [(''CID'', ''c1''), (''SCRATCH_SIZE'', ''0m''), (''MOUNTS'', ''''), (''SLOTS'', ''{}''),
         (''CPU.CORE_SHARES'', ''0:1'')]"
    by (simp add: read_kvpairs_def str_partition_def str_strip_def isspace_def dict_set_def)
  have one: "int_Decimal_of_str ''1'' = Inr 1"
    by (simp add: int_Decimal_of_str_def nat_of_str_def isdigit_def)
  have r2: "read_from_string int_library [''cpu.Core'' \<mapsto> ''count''] ?t2
      = Inr \<lparr>container_id = ''c1'', slots = [],
            allocations = [(''cpu'', [(''cpu.core'', [(''0'', 1)])])],
            scratch_disk_size = 0, mounts = []\<rparr>"
    by (simp add: read_from_string_def read_from_string_log_def kv2 str_endswith_def
        int_library_def size plain_json_loads_def lower str_partition_def read_alloc_def
        slot_type_def one allocations_set_def dict_set_def)
  from w1 r1 w2 r2 show ?thesis by simp
qed

subsection \<open>An amount under a slot in bytes\<close>





subsection \<open>A slot name that the registry does not have\<close>

text \<open>
  C2.  The lookup \<^verbatim>\<open>known_slot_types.get(slot_name, 'count')\<close> gives \<open>count\<close> for a slot
  name that the registry does not have and raises nothing, so the branch that logs the
  warning and skips the entry is not taken for it.  With an empty registry the line
  \<open>CUDA.MEM_SHARES=0:1\<close> is parsed with no warning and its entry is kept in the record;
  the line \<open>CUDA.MEM_SHARES=0:10g\<close>, as it is written for a slot in bytes, makes the whole
  parse fail on \<^verbatim>\<open>Decimal('10g')\<close>.
\<close>

theorem read_from_string_unknown_slot_type:
  "slot_type Map.empty ''cuda.mem'' = ''count''
   \<and> read_from_string_log int_library Map.empty
        ''SCRATCH_SIZE=0\<newline>MOUNTS=\<newline>SLOTS={}\<newline>CUDA.MEM_SHARES=0:1\<newline>''
      = Inr (\<lparr>container_id = ''unknown'', slots = [],
              allocations = [(''cuda'', [(''cuda.mem'', [(''0'', 1)])])],
              scratch_disk_size = 0, mounts = []\<rparr>, [])
   \<and> read_from_string_log int_library Map.empty
        ''SCRATCH_SIZE=0\<newline>MOUNTS=\<newline>SLOTS={}\<newline>CUDA.MEM_SHARES=0:10g\<newline>''
      = Inl InvalidOperation"
proof -
  let ?t1 = "''SCRATCH_SIZE=0\<newline>MOUNTS=\<newline>SLOTS={}\<newline>CUDA.MEM_SHARES=0:1\<newline>''"
  let ?t2 = "''SCRATCH_SIZE=0\<newline>MOUNTS=\<newline>SLOTS={}\<newline>CUDA.MEM_SHARES=0:10g\<newline>''"
  have lower: "str_lower ''CUDA.MEM'' = ''cuda.mem''" by code_simp
  have size: "units_BinarySize_from_str ''0'' = Inr 0"
    by (simp add: units_BinarySize_from_str_def nat_of_str_def isdigit_def)
  have kv1: "read_kvpairs ?t1
      = [(''SCRATCH_SIZE'', ''0''), (''MOUNTS'', ''''), (''SLOTS'', ''{}''),
         (''CUDA.MEM_SHARES'', ''0:1'')]"
    by (simp add: read_kvpairs_def str_partition_def str_strip_def isspace_def dict_set_def)
  have kv2: "read_kvpairs ?t2
      = [(''SCRATCH_SIZE'', ''0''), (''MOUNTS'', ''''), (''SLOTS'', ''{}''),
         (''CUDA.MEM_SHARES'', ''0:10g'')]"
    by (simp add: read_kvpairs_def str_partition_def str_strip_def isspace_def dict_set_def)
  have one: "int_Decimal_of_str ''1'' = Inr 1"
    by (simp add: int_Decimal_of_str_def nat_of_str_def isdigit_def)
  have bad: "int_Decimal_of_str ''10g'' = Inl InvalidOperation"
    by (simp add: int_Decimal_of_str_def nat_of_str_def isdigit_def)
  have r1: "read_from_string_log int_library Map.empty ?t1
      = Inr (\<lparr>container_id = ''unknown'', slots = [],
              allocations = [(''cuda'', [(''cuda.mem'', [(''0'', 1)])])],
              scratch_disk_size = 0, mounts = []\<rparr>, [])"
    by (simp add: read_from_string_log_def kv1 str_endswith_def int_library_def size
        plain_json_loads_def lower str_partition_def read_alloc_def slot_type_def one
        allocations_set_def dict_set_def)
  have r2: "read_from_string_log int_library Map.empty ?t2 = Inl InvalidOperation"
    by (simp add: read_from_string_log_def kv2 str_endswith_def int_library_def lower
        str_partition_def read_alloc_def slot_type_def bad)
  from r1 r2 show ?thesis by (simp add: slot_type_def)
qed

subsection \<open>The keys of a written text\<close>

lemma write_to_string_Inr:
  assumes "write_to_string lib kst r = Inr t"
  shows "t = text_of_kvs (header_kvs lib r @ alloc_kvs lib kst (allocations r))"
proof -
  have "\<forall>device \<in> set (allocations r). \<forall>slot \<in> set (snd device).
      fst slot = fst device \<or> str_startswith (fst slot) (fst device @ ''.'')"
  proof (intro ballI)
    fix device slot
    assume d: "device \<in> set (allocations r)" and s: "slot \<in> set (snd device)"
    show "fst slot = fst device \<or> str_startswith (fst slot) (fst device @ ''.'')"
    proof (rule ccontr)
      assume "\<not> (fst slot = fst device \<or> str_startswith (fst slot) (fst device @ ''.''))"
      then have bad: "\<not> (str_startswith (fst slot) (fst device @ ''.'') \<or> fst slot = fst device)"
        by blast
      have "write_allocations lib kst (allocations r) (write_header lib r) = Inl ValueError"
        by (rule write_allocations_violation [of "fst device" "snd device" _ "fst slot" "snd slot"])
          (use d s bad in simp_all)
      with assms show False by (simp add: write_to_string_def)
    qed
  qed
  then have "write_allocations lib kst (allocations r) (write_header lib r)
      = Inr (write_header lib r @ text_of_kvs (alloc_kvs lib kst (allocations r)))"
    by (rule write_allocations_text)
  with assms show ?thesis
    by (simp add: write_to_string_def write_header_text text_of_kvs_append)
qed

lemma line_key_kv_line:
  assumes "CHR ''='' \<notin> set k" "k = [] \<or> \<not> isspace (hd k)"
  shows "line_key (kv_line (k, v)) = k"
proof -
  have eq: "\<not> isspace CHR ''=''" by (simp add: isspace_def)
  have "str_strip ((k @ ''='') @ v) = (k @ ''='') @ rev (dropWhile isspace (rev v))"
    by (rule str_strip_prefix) (use assms(2) eq in \<open>auto simp: hd_append\<close>)
  then show ?thesis
    using assms(1) by (simp add: line_key_def kv_line_def str_partition_line)
qed

lemma has_key_text_of_kvs:
  assumes "\<forall>kv \<in> set kvs. CHR ''='' \<notin> set (fst kv) \<and> CHR 0x0A \<notin> set (fst kv)
      \<and> (fst kv = [] \<or> \<not> isspace (hd (fst kv))) \<and> CHR 0x0A \<notin> set (snd kv)"
  shows "has_key (text_of_kvs kvs) key \<longleftrightarrow> key \<in> fst ` set kvs"
proof -
  have key_of: "line_key (kv_line kv) = fst kv" and eq_in: "CHR ''='' \<in> set (kv_line kv)"
    if "kv \<in> set kvs" for kv
  proof -
    from assms that have "CHR ''='' \<notin> set (fst kv)" "fst kv = [] \<or> \<not> isspace (hd (fst kv))"
      by blast+
    then have "line_key (kv_line (fst kv, snd kv)) = fst kv" by (rule line_key_kv_line)
    then show "line_key (kv_line kv) = fst kv" by simp
    show "CHR ''='' \<in> set (kv_line kv)" by (simp add: kv_line_def)
  qed
  have "CHR 0x0A \<notin> set (kv_line kv)" if "kv \<in> set kvs" for kv
    using assms that by (auto simp: kv_line_def)
  then have "\<forall>l \<in> set (map kv_line kvs). CHR 0x0A \<notin> set l" by auto
  then have lines: "str_split CHR 0x0A (text_of_kvs kvs) = map kv_line kvs @ [[]]"
    unfolding text_of_kvs_def by (rule str_split_lines)
  show ?thesis
  proof
    assume "has_key (text_of_kvs kvs) key"
    then obtain line where line: "line \<in> set (map kv_line kvs @ [[]])" "CHR ''='' \<in> set line"
        "line_key line = key"
      unfolding has_key_def lines by blast
    then obtain kv where kv: "kv \<in> set kvs" "line = kv_line kv" by auto
    from key_of [OF kv(1)] line(3) kv(2) have "key = fst kv" by simp
    with kv(1) show "key \<in> fst ` set kvs" by simp
  next
    assume "key \<in> fst ` set kvs"
    then obtain kv where kv: "kv \<in> set kvs" "fst kv = key" by auto
    then have "kv_line kv \<in> set (str_split CHR 0x0A (text_of_kvs kvs))"
      unfolding lines by simp
    with key_of [OF kv(1)] eq_in [OF kv(1)] kv(2) show "has_key (text_of_kvs kvs) key"
      unfolding has_key_def by blast
  qed
qed

lemma written_keys:
  assumes "write_to_string lib kst r = Inr t" "lines_ok lib kst r"
  shows "has_key t key \<longleftrightarrow>
    key \<in> {''CID'', ''SCRATCH_SIZE'', ''MOUNTS'', ''SLOTS''}
            \<union> slot_key ` set (slot_names (allocations r))"
proof -
  let ?kvs = "header_kvs lib r @ alloc_kvs lib kst (allocations r)"
  have ok: "CHR ''='' \<notin> set (fst kv) \<and> CHR 0x0A \<notin> set (fst kv)
      \<and> (fst kv = [] \<or> \<not> isspace (hd (fst kv))) \<and> CHR 0x0A \<notin> set (snd kv)"
    if "kv \<in> set ?kvs" for kv
  proof -
    from assms(2) that have val: "CHR 0x0A \<notin> set (snd kv)"
      unfolding lines_ok_def by blast
    from that consider "kv \<in> set (header_kvs lib r)" | "kv \<in> set (alloc_kvs lib kst (allocations r))"
      by auto
    then show ?thesis
    proof cases
      case 1
      then show ?thesis using val by (auto simp: header_kvs_def isspace_def)
    next
      case 2
      then have "fst kv \<in> set (map fst (alloc_kvs lib kst (allocations r)))" by simp
      then obtain s where s: "s \<in> set (slot_names (allocations r))" "fst kv = slot_key s"
        unfolding alloc_kvs_keys by auto
      with assms(2) have "CHR ''='' \<notin> set s" "CHR 0x0A \<notin> set s" "s = [] \<or> \<not> isspace (hd s)"
        unfolding lines_ok_def by blast+
      from slot_key_plain [OF this] val s(2) show ?thesis by simp
    qed
  qed
  have "fst ` set ?kvs = {''CID'', ''SCRATCH_SIZE'', ''MOUNTS'', ''SLOTS''}
      \<union> slot_key ` set (slot_names (allocations r))"
  proof -
    have "fst ` set (alloc_kvs lib kst (allocations r))
        = set (map fst (alloc_kvs lib kst (allocations r)))" by simp
    also have "\<dots> = slot_key ` set (slot_names (allocations r))"
      unfolding alloc_kvs_keys by simp
    finally show ?thesis by (auto simp: header_kvs_def)
  qed
  moreover have "has_key (text_of_kvs ?kvs) key \<longleftrightarrow> key \<in> fst ` set ?kvs"
    by (rule has_key_text_of_kvs) (use ok in blast)
  ultimately show ?thesis
    using write_to_string_Inr [OF assms(1)] by simp
qed

subsection \<open>The slot names of a parsed record\<close>

lemma slot_names_allocations_set:
  "set (slot_names (allocations_set A dev s v)) = insert s (set (slot_names A))"
proof (induction A)
  case Nil
  then show ?case by (simp add: allocations_set_def dict_set_def slot_names_def)
next
  case (Cons x A)
  obtain d sl where x: "x = (d, sl)" by (cases x)
  show ?case
  proof (cases "d = dev")
    case True
    then have "allocations_set (x # A) dev s v = (dev, dict_set sl s v) # A"
      by (simp add: allocations_set_def x dict_set_def)
    then have "set (slot_names (allocations_set (x # A) dev s v))
        = fst ` set (dict_set sl s v) \<union> set (slot_names A)"
      by (simp add: slot_names_def)
    then show ?thesis by (simp add: keys_dict_set x slot_names_def)
  next
    case False
    then have "allocations_set (x # A) dev s v = x # allocations_set A dev s v"
      by (simp add: allocations_set_def x dict_set_def)
    with Cons show ?thesis by (auto simp: slot_names_def)
  qed
qed

lemma read_allocations_slot_names:
  assumes "read_allocations lib kst kvs (allocs, w) = Inr (allocs', w')"
  shows "set (slot_names allocs') = set (slot_names allocs)
    \<union> {str_lower (take (length key - 7) key) | key.
         key \<in> fst ` set kvs \<and> str_endswith key ''_SHARES''}"
  using assms
proof (induction kvs arbitrary: allocs w)
  case Nil
  then show ?case by simp
next
  case (Cons kv kvs)
  obtain key val where kv: "kv = (key, val)" by (cases kv)
  show ?case
  proof (cases "str_endswith key ''_SHARES''")
    case False
    with Cons.prems kv have "read_allocations lib kst kvs (allocs, w) = Inr (allocs', w')"
      by simp
    from Cons.IH [OF this] False kv show ?thesis by auto
  next
    case True
    let ?slot = "str_lower (take (length key - 7) key)"
    let ?dev = "hd (str_split CHR ''.'' ?slot)"
    from Cons.prems kv True obtain pda w1 where
      rest: "read_allocations lib kst kvs (allocations_set allocs ?dev ?slot pda, w1)
          = Inr (allocs', w')"
      by (auto simp: Let_def split: sum.splits prod.splits)
    from Cons.IH [OF rest] True kv show ?thesis
      by (auto simp: slot_names_allocations_set)
  qed
qed

lemma parsed_slot_names:
  assumes "read_from_string lib kst t = Inr r"
  shows "set (slot_names (allocations r))
    = {str_lower (take (length key - 7) key) | key. has_key t key \<and> str_endswith key ''_SHARES''}"
proof -
  from read_from_string_allocations [OF assms] obtain w where
    "read_allocations lib kst (read_kvpairs t) ([], []) = Inr (allocations r, w)" by blast
  from read_allocations_slot_names [OF this] show ?thesis
    by (simp add: keys_read_kvpairs slot_names_def)
qed

lemma slot_key_lower: "str_lower (take (length (slot_key s) - 7) (slot_key s)) = str_lower (str_upper s)"
  by (simp add: slot_key_def)

lemma slot_key_suffix: "str_endswith (slot_key s) ''_SHARES''"
  by (simp add: slot_key_def str_endswith_def)

lemma written_slot_names:
  assumes "write_to_string lib kst0 r0 = Inr t" "lines_ok lib kst0 r0"
    and "read_from_string lib kst t = Inr r"
  shows "set (slot_names (allocations r))
    = (\<lambda>s. str_lower (str_upper s)) ` set (slot_names (allocations r0))"
proof -
  have header: "\<not> str_endswith ''CID'' ''_SHARES''" "\<not> str_endswith ''SCRATCH_SIZE'' ''_SHARES''"
    "\<not> str_endswith ''MOUNTS'' ''_SHARES''" "\<not> str_endswith ''SLOTS'' ''_SHARES''"
    by (simp_all add: str_endswith_def)
  have "{str_lower (take (length key - 7) key) | key. has_key t key \<and> str_endswith key ''_SHARES''}
      = (\<lambda>s. str_lower (str_upper s)) ` set (slot_names (allocations r0))"
    (is "?L = ?R")
  proof
    show "?L \<subseteq> ?R"
    proof
      fix x assume "x \<in> ?L"
      then obtain key where key: "has_key t key" "str_endswith key ''_SHARES''"
          "x = str_lower (take (length key - 7) key)" by blast
      from key(1,2) header obtain s where "s \<in> set (slot_names (allocations r0))" "key = slot_key s"
        unfolding written_keys [OF assms(1,2)] by auto
      with key(3) show "x \<in> ?R" by (simp add: slot_key_lower)
    qed
    show "?R \<subseteq> ?L"
    proof
      fix x assume "x \<in> ?R"
      then obtain s where s: "s \<in> set (slot_names (allocations r0))" "x = str_lower (str_upper s)"
        by blast
      then have "has_key t (slot_key s)" unfolding written_keys [OF assms(1,2)] by simp
      with s(2) slot_key_suffix [of s] slot_key_lower [of s] show "x \<in> ?L" by force
    qed
  qed
  then show ?thesis unfolding parsed_slot_names [OF assms(3)] .
qed

text \<open>
  C10.  As amended: in a record that \<open>read_from_string\<close> returns, every slot name of the
  allocations is a key of the text that ends in \<open>_SHARES\<close>, without that suffix and in
  lower case, so it has no upper-case character (among the code points below 256, the
  characters of a \<open>string\<close>); and it stands under the device name that is its part before
  the first dot (all of it when it has no dot).  When the text is the one that
  \<open>write_to_string\<close> returns for a record whose text keeps its lines (\<open>lines_ok\<close>) and whose
  slot names have their upper case among the characters of a \<open>string\<close> (\<open>upper_known\<close>),
  the slot names of the parsed record are exactly the lower case of the upper case of the
  slot names written; this is the lower case of a slot name that holds no sharp s.
\<close>

theorem read_from_string_slot_names:
  assumes "read_from_string lib known_slot_types text = Inr r"
  shows "(\<forall>device \<in> set (allocations r). \<forall>slot \<in> set (snd device).
            (\<forall>c \<in> set (fst slot). \<not> isupper c)
            \<and> (\<exists>key. has_key text key \<and> str_endswith key ''_SHARES''
                  \<and> fst slot = str_lower (take (length key - 7) key))
            \<and> fst device = takeWhile (\<lambda>c. c \<noteq> CHR ''.'') (fst slot))
    \<and> (\<forall>r0 kst0.
          write_to_string lib kst0 r0 = Inr text \<and> lines_ok lib kst0 r0
          \<and> (\<forall>s \<in> set (slot_names (allocations r0)). upper_known s)
          \<longrightarrow> set (slot_names (allocations r))
                = (\<lambda>s. str_lower (str_upper s)) ` set (slot_names (allocations r0))
              \<and> (\<forall>s \<in> set (slot_names (allocations r0)).
                    CHR 0xDF \<notin> set s \<longrightarrow> str_lower s \<in> set (slot_names (allocations r))))"
proof (intro conjI ballI allI impI)
  let ?K = "{key. has_key text key}"
  from read_from_string_allocations [OF assms] obtain w where ra:
    "read_allocations lib known_slot_types (read_kvpairs text) ([], []) = Inr (allocations r, w)"
    by blast
  have keys: "fst ` set (read_kvpairs text) \<subseteq> ?K"
    by (simp add: keys_read_kvpairs)
  have empty: "\<forall>(d, sl) \<in> set ([] :: (string \<times> (string \<times> (string \<times> 'a) list) list) list).
      \<forall>(s, p) \<in> set sl. slot_from_keys ?K d s"
    by simp
  have inv: "\<forall>(d, sl) \<in> set (allocations r). \<forall>(s, p) \<in> set sl. slot_from_keys ?K d s"
    by (rule read_allocations_slot_from_keys [OF ra empty keys])
  {
    fix device slot
    assume "device \<in> set (allocations r)" "slot \<in> set (snd device)"
    then have "(fst device, snd device) \<in> set (allocations r)" "(fst slot, snd slot) \<in> set (snd device)"
      by simp_all
    with inv have "slot_from_keys ?K (fst device) (fst slot)" by blast
    then obtain key where key: "has_key text key" "str_endswith key ''_SHARES''"
        "fst slot = str_lower (take (length key - 7) key)"
      and dev: "fst device = hd (str_split CHR ''.'' (fst slot))"
      unfolding slot_from_keys_def by auto
    from key show "\<exists>key. has_key text key \<and> str_endswith key ''_SHARES''
        \<and> fst slot = str_lower (take (length key - 7) key)" by blast
    from dev show "fst device = takeWhile (\<lambda>c. c \<noteq> CHR ''.'') (fst slot)"
      by (simp add: hd_str_split)
    fix c assume "c \<in> set (fst slot)"
    with key(3) show "\<not> isupper c" using str_lower_not_upper by metis
  }
  fix r0 :: "'a KernelResourceSpec" and kst0
  assume w: "write_to_string lib kst0 r0 = Inr text \<and> lines_ok lib kst0 r0
      \<and> (\<forall>s \<in> set (slot_names (allocations r0)). upper_known s)"
  then show names: "set (slot_names (allocations r))
      = (\<lambda>s. str_lower (str_upper s)) ` set (slot_names (allocations r0))"
    using written_slot_names [OF _ _ assms] by blast
  fix s assume "s \<in> set (slot_names (allocations r0))" "CHR 0xDF \<notin> set s"
  with names str_lower_upper [of s] show "str_lower s \<in> set (slot_names (allocations r))"
    by force
qed

theorem read_from_string_slot_names_witness:
  "read_from_string int_library Map.empty
       ''CID=c1\<newline>SCRATCH_SIZE=0m\<newline>MOUNTS=\<newline>SLOTS={}\<newline>CUDA.MEM_SHARES=0:1\<newline>''
     = Inr \<lparr>container_id = ''c1'', slots = [],
            allocations = [(''cuda'', [(''cuda.mem'', [(''0'', 1)])])],
            scratch_disk_size = 0, mounts = []\<rparr>
   \<and> write_to_string int_library Map.empty
        \<lparr>container_id = ''c1'', slots = [],
         allocations = [(''cuda'', [(''cuda.Mem'', [(''0'', 1)])])],
         scratch_disk_size = 0, mounts = []\<rparr>
     = Inr ''CID=c1\<newline>SCRATCH_SIZE=0m\<newline>MOUNTS=\<newline>SLOTS={}\<newline>CUDA.MEM_SHARES=0:1\<newline>''
   \<and> lines_ok int_library Map.empty
        \<lparr>container_id = ''c1'', slots = [],
         allocations = [(''cuda'', [(''cuda.Mem'', [(''0'', 1)])])],
         scratch_disk_size = 0, mounts = []\<rparr>
   \<and> upper_known ''cuda.Mem'' \<and> CHR 0xDF \<notin> set ''cuda.Mem''
   \<and> list_all (\<lambda>c. \<not> isupper c) ''cuda.mem''
   \<and> ''cuda'' = takeWhile (\<lambda>c. c \<noteq> CHR ''.'') ''cuda.mem''
   \<and> str_lower ''cuda.Mem'' = ''cuda.mem''
   \<and> str_lower ''cuda.Mem''
       \<in> set (slot_names (allocations
            \<lparr>container_id = ''c1'', slots = [],
             allocations = [(''cuda'', [(''cuda.mem'', [(''0'', 1::int)])])],
             scratch_disk_size = 0, mounts = []\<rparr>))"
proof -
  let ?t = "''CID=c1\<newline>SCRATCH_SIZE=0m\<newline>MOUNTS=\<newline>SLOTS={}\<newline>CUDA.MEM_SHARES=0:1\<newline>''"
  let ?r = "\<lparr>container_id = ''c1'', slots = [],
            allocations = [(''cuda'', [(''cuda.mem'', [(''0'', 1)])])],
            scratch_disk_size = 0, mounts = []\<rparr> :: int KernelResourceSpec"
  let ?written = "\<lparr>container_id = ''c1'', slots = [],
            allocations = [(''cuda'', [(''cuda.Mem'', [(''0'', 1)])])],
            scratch_disk_size = 0, mounts = []\<rparr> :: int KernelResourceSpec"
  note size = example_sizes(1,2)
  have upper: "str_upper ''cuda.Mem'' = ''CUDA.MEM''" by code_simp
  have lower: "str_lower ''CUDA.MEM'' = ''cuda.mem''" "str_lower ''cuda.Mem'' = ''cuda.mem''"
    by code_simp+
  have kv: "read_kvpairs ?t
      = [(''CID'', ''c1''), (''SCRATCH_SIZE'', ''0m''), (''MOUNTS'', ''''), (''SLOTS'', ''{}''),
         (''CUDA.MEM_SHARES'', ''0:1'')]"
    by (simp add: read_kvpairs_def str_partition_def str_strip_def isspace_def dict_set_def)
  have val: "read_from_string int_library Map.empty ?t = Inr ?r"
    by (simp add: read_from_string_def read_from_string_log_def kv str_endswith_def
        int_library_def size plain_json_loads_def lower str_partition_def read_alloc_def
        slot_type_def example_counts allocations_set_def dict_set_def)
  have wr: "write_to_string int_library Map.empty ?written = Inr ?t"
    by (simp add: write_to_string_def write_header_def int_library_def size
        plain_json_dumps_def str_startswith_def write_piece_def slot_type_def upper
        example_counts)
  have lines: "lines_ok int_library Map.empty ?written"
    by (simp add: lines_ok_def header_kvs_def alloc_kvs_def slot_names_def slot_val_def
        write_piece_def slot_type_def int_library_def size plain_json_dumps_def
        example_counts isspace_def)
  have known: "upper_known ''cuda.Mem''" "CHR 0xDF \<notin> set ''cuda.Mem''"
    by (simp_all add: upper_known_def)
  have names0: "slot_names (allocations ?written) = [''cuda.Mem'']"
    by (simp add: slot_names_def)
  have a: "(''cuda'', [(''cuda.mem'', [(''0'', 1::int)])]) \<in> set (allocations ?r)"
    and b: "(''cuda.mem'', [(''0'', 1::int)]) \<in> set (snd (''cuda'', [(''cuda.mem'', [(''0'', 1::int)])]))"
    by simp_all
  from read_from_string_slot_names [OF val]
  have first: "\<forall>device \<in> set (allocations ?r). \<forall>slot \<in> set (snd device).
            (\<forall>c \<in> set (fst slot). \<not> isupper c)
            \<and> fst device = takeWhile (\<lambda>c. c \<noteq> CHR ''.'') (fst slot)"
    and second: "write_to_string int_library Map.empty ?written = Inr ?t
          \<and> lines_ok int_library Map.empty ?written
          \<and> (\<forall>s \<in> set (slot_names (allocations ?written)). upper_known s)
          \<longrightarrow> (\<forall>s \<in> set (slot_names (allocations ?written)).
                    CHR 0xDF \<notin> set s \<longrightarrow> str_lower s \<in> set (slot_names (allocations ?r)))"
    by blast+
  from first a b have "(\<forall>c \<in> set ''cuda.mem''. \<not> isupper c)
      \<and> ''cuda'' = takeWhile (\<lambda>c. c \<noteq> CHR ''.'') ''cuda.mem''"
    by fastforce
  moreover from second wr lines known names0
  have "str_lower ''cuda.Mem'' \<in> set (slot_names (allocations ?r))" by simp
  ultimately show ?thesis
    using val wr lines known lower(2) by (simp add: list_all_iff)
qed

text \<open>
  A slot name with a sharp s does not come back in its lower case: \<open>cuda.\<close> with U+00DF is
  written under the key \<open>CUDA.SS_SHARES\<close> and comes back as \<open>cuda.ss\<close>.  A slot name with
  \<open>=\<close> does not come back at all: the line of \<open>cpu.a=b\<close> has the key \<open>CPU.A\<close>, which
  does not end in \<open>_SHARES\<close>.
\<close>

theorem read_from_string_slot_names_counterexample:
  "write_to_string int_library Map.empty
        \<lparr>container_id = ''c1'', slots = [],
         allocations = [(''cuda'', [(''cuda.'' @ [CHR 0xDF], [(''0'', 1)])])],
         scratch_disk_size = 0, mounts = []\<rparr>
     = Inr ''CID=c1\<newline>SCRATCH_SIZE=0m\<newline>MOUNTS=\<newline>SLOTS={}\<newline>CUDA.SS_SHARES=0:1\<newline>''
   \<and> read_from_string int_library Map.empty
       ''CID=c1\<newline>SCRATCH_SIZE=0m\<newline>MOUNTS=\<newline>SLOTS={}\<newline>CUDA.SS_SHARES=0:1\<newline>''
     = Inr \<lparr>container_id = ''c1'', slots = [],
            allocations = [(''cuda'', [(''cuda.ss'', [(''0'', 1)])])],
            scratch_disk_size = 0, mounts = []\<rparr>
   \<and> str_lower (''cuda.'' @ [CHR 0xDF]) = ''cuda.'' @ [CHR 0xDF]
   \<and> ''cuda.ss'' \<noteq> ''cuda.'' @ [CHR 0xDF]
   \<and> write_to_string int_library Map.empty
        \<lparr>container_id = ''c1'', slots = [],
         allocations = [(''cpu'', [(''cpu.a=b'', [(''0'', 1)])])],
         scratch_disk_size = 0, mounts = []\<rparr>
     = Inr ''CID=c1\<newline>SCRATCH_SIZE=0m\<newline>MOUNTS=\<newline>SLOTS={}\<newline>CPU.A=B_SHARES=0:1\<newline>''
   \<and> read_from_string int_library Map.empty
       ''CID=c1\<newline>SCRATCH_SIZE=0m\<newline>MOUNTS=\<newline>SLOTS={}\<newline>CPU.A=B_SHARES=0:1\<newline>''
     = Inr \<lparr>container_id = ''c1'', slots = [], allocations = [],
            scratch_disk_size = 0, mounts = []\<rparr>"
proof -
  let ?t1 = "''CID=c1\<newline>SCRATCH_SIZE=0m\<newline>MOUNTS=\<newline>SLOTS={}\<newline>CUDA.SS_SHARES=0:1\<newline>''"
  let ?t2 = "''CID=c1\<newline>SCRATCH_SIZE=0m\<newline>MOUNTS=\<newline>SLOTS={}\<newline>CPU.A=B_SHARES=0:1\<newline>''"
  note size = example_sizes(1,2)
  have upper: "str_upper (''cuda.'' @ [CHR 0xDF]) = ''CUDA.SS''" "str_upper ''cpu.a=b'' = ''CPU.A=B''"
    by code_simp+
  have lower: "str_lower ''CUDA.SS'' = ''cuda.ss''"
    "str_lower (''cuda.'' @ [CHR 0xDF]) = ''cuda.'' @ [CHR 0xDF]"
    by code_simp+
  have w1: "write_to_string int_library Map.empty
        \<lparr>container_id = ''c1'', slots = [],
         allocations = [(''cuda'', [(''cuda.'' @ [CHR 0xDF], [(''0'', 1)])])],
         scratch_disk_size = 0, mounts = []\<rparr> = Inr ?t1"
    using upper(1)
    by (simp add: write_to_string_def write_header_def int_library_def size
        plain_json_dumps_def str_startswith_def write_piece_def slot_type_def
        example_counts)
  have kv1: "read_kvpairs ?t1
      = [(''CID'', ''c1''), (''SCRATCH_SIZE'', ''0m''), (''MOUNTS'', ''''), (''SLOTS'', ''{}''),
         (''CUDA.SS_SHARES'', ''0:1'')]"
    by (simp add: read_kvpairs_def str_partition_def str_strip_def isspace_def dict_set_def)
  have r1: "read_from_string int_library Map.empty ?t1
      = Inr \<lparr>container_id = ''c1'', slots = [],
            allocations = [(''cuda'', [(''cuda.ss'', [(''0'', 1)])])],
            scratch_disk_size = 0, mounts = []\<rparr>"
    by (simp add: read_from_string_def read_from_string_log_def kv1 str_endswith_def
        int_library_def size plain_json_loads_def lower str_partition_def read_alloc_def
        slot_type_def example_counts allocations_set_def dict_set_def)
  have w2: "write_to_string int_library Map.empty
        \<lparr>container_id = ''c1'', slots = [],
         allocations = [(''cpu'', [(''cpu.a=b'', [(''0'', 1)])])],
         scratch_disk_size = 0, mounts = []\<rparr> = Inr ?t2"
    by (simp add: write_to_string_def write_header_def int_library_def size
        plain_json_dumps_def str_startswith_def write_piece_def slot_type_def upper
        example_counts)
  have kv2: "read_kvpairs ?t2
      = [(''CID'', ''c1''), (''SCRATCH_SIZE'', ''0m''), (''MOUNTS'', ''''), (''SLOTS'', ''{}''),
         (''CPU.A'', ''B_SHARES=0:1'')]"
    by (simp add: read_kvpairs_def str_partition_def str_strip_def isspace_def dict_set_def)
  have r2: "read_from_string int_library Map.empty ?t2
      = Inr \<lparr>container_id = ''c1'', slots = [], allocations = [],
            scratch_disk_size = 0, mounts = []\<rparr>"
    by (simp add: read_from_string_def read_from_string_log_def kv2 str_endswith_def
        int_library_def size plain_json_loads_def)
  from w1 r1 w2 r2 lower(2) show ?thesis by simp
qed

end
